theory Spec2Isabelle
  imports Main "HOL-Library.Word" "HOL-Library.Multiset" "HOL-Library.List_Lexorder"
begin

unbundle bit_operations_syntax

section \<open>Machine types and C strings\<close>

text \<open>
  The archive reader of \<^verbatim>\<open>mtf.c\<close> works on bytes, on 16- and 32-bit unsigned words and
  on NUL-terminated strings. A C string is modelled by the list of its bytes before the
  terminator, so a value of type \<open>cstring\<close> never contains the byte 0.
\<close>

type_synonym byte = "8 word"
type_synonym uint16_t = "16 word"
type_synonym uint32_t = "32 word"
type_synonym cstring = "byte list"

text \<open>The string held by a buffer that has a terminator behind its last byte.\<close>

definition c_str :: "byte list \<Rightarrow> cstring" where
  "c_str buf = takeWhile (\<lambda>b. b \<noteq> 0) buf"

text \<open>
  \<^verbatim>\<open>fread\<close> stores the bytes of the file at increasing addresses of the object it fills.
  The value of that object is read little-endian, as on the x86 hosts the tool was
  written for: the first byte is the least significant one.
\<close>

definition le_nat :: "byte list \<Rightarrow> nat" where
  "le_nat bs = foldr (\<lambda>b n. unat b + 256 * n) bs 0"

definition le_word :: "byte list \<Rightarrow> 'a::len word" where
  "le_word bs = word_of_nat (le_nat bs)"

text \<open>The other way round: the \<open>k\<close> bytes of a number, and the four bytes of a 32-bit object.\<close>

fun le_bytes :: "nat \<Rightarrow> nat \<Rightarrow> byte list" where
  "le_bytes 0 n = []"
| "le_bytes (Suc k) n = of_nat (n mod 256) # le_bytes k (n div 256)"

definition le32 :: "uint32_t \<Rightarrow> byte list" where
  "le32 w = le_bytes 4 (unat w)"

section \<open>Errors\<close>

text \<open>
  \<^verbatim>\<open>mtf_error(message)\<close> stores a message in a global string and returns false. Each
  message of the source is one constructor; a function of the model that fails returns
  the constructor of the message that is current when the C function returns.
\<close>

datatype mtf_error =
    MkdirFailed              \<comment> \<open>Impossible to create directory! mkdir(0777) failed.\<close>
  | PathIsFile               \<comment> \<open>Can't mkdir()! Path points to a file.\<close>
  | Read32Failed             \<comment> \<open>mtf_read32() failed!\<close>
  | Read16Failed             \<comment> \<open>mtf_read16() failed!\<close>
  | Read8Failed              \<comment> \<open>mtf_read8() failed!\<close>
  | MallocBufferFailed       \<comment> \<open>Failed to malloc decompression buffer!\<close>
  | SizeMismatch             \<comment> \<open>Compressed/decompressed size mismatch!\<close>
  | WriteDecompressedFailed  \<comment> \<open>Failed to write decompressed file data!\<close>
  | RawMallocFailed          \<comment> \<open>mtf_write_file(): Failed to malloc buffer!\<close>
  | RawSeekFailed            \<comment> \<open>mtf_write_file(): Can't fseek() entry offset!\<close>
  | RawReadFailed            \<comment> \<open>mtf_write_file(): Can't read source file entry!\<close>
  | RawWriteFailed           \<comment> \<open>mtf_write_file(): Can't write dest file!\<close>
  | CantOpenInput            \<comment> \<open>Can't open input MTF file!\<close>
  | ReadCountFailed          \<comment> \<open>Failed to read file entry count.\<close>
  | NoFiles                  \<comment> \<open>MTF appears to have no file! fileEntryCount == 0.\<close>
  | MallocEntriesFailed      \<comment> \<open>Failed to malloc MTF file entries!\<close>
  | ReadNameLenFailed        \<comment> \<open>file to read a filename length.\<close>
  | MallocNameFailed         \<comment> \<open>Failed to malloc filename string!\<close>
  | ReadOffsetSizeFailed     \<comment> \<open>Failed to read data offset or size.\<close>
  | ReadHeaderFailed         \<comment> \<open>Failed to read a compression info header!\<close>
  | CantCreateOutput         \<comment> \<open>Can't create output file on extraction path!\<close>

text \<open>
  The source has messages only. The specification sorts failures into two kinds (its
  section 7): an \<open>IoError\<close> is an open, seek, read or write failure on the archive or on an
  output file, a \<open>FormatError\<close> is a zero-entry table, a destination path component that
  is a plain file, or a size mismatch found while decoding. A failed allocation is in
  neither list and gets a kind of its own.
\<close>

datatype error_kind = IoError | FormatError | ResourceError

fun kind_of :: "mtf_error \<Rightarrow> error_kind" where
  "kind_of MkdirFailed = IoError"
| "kind_of PathIsFile = FormatError"
| "kind_of Read32Failed = IoError"
| "kind_of Read16Failed = IoError"
| "kind_of Read8Failed = IoError"
| "kind_of MallocBufferFailed = ResourceError"
| "kind_of SizeMismatch = FormatError"
| "kind_of WriteDecompressedFailed = IoError"
| "kind_of RawMallocFailed = ResourceError"
| "kind_of RawSeekFailed = IoError"
| "kind_of RawReadFailed = IoError"
| "kind_of RawWriteFailed = IoError"
| "kind_of CantOpenInput = IoError"
| "kind_of ReadCountFailed = IoError"
| "kind_of NoFiles = FormatError"
| "kind_of MallocEntriesFailed = ResourceError"
| "kind_of ReadNameLenFailed = IoError"
| "kind_of MallocNameFailed = ResourceError"
| "kind_of ReadOffsetSizeFailed = IoError"
| "kind_of ReadHeaderFailed = IoError"
| "kind_of CantCreateOutput = IoError"

text \<open>
  A call ends in one of four ways: a failed \<^verbatim>\<open>assert\<close> ends the process (the build
  does not define \<^verbatim>\<open>NDEBUG\<close>), the call stores bytes outside a block that \<^verbatim>\<open>malloc\<close> has
  returned, after which the C language gives the run no meaning, the function returns false
  after \<^verbatim>\<open>mtf_error\<close>, or it returns true.
\<close>

datatype 'a outcome = Aborted | Overrun | Failed mtf_error | Ok 'a

section \<open>The input stream\<close>

text \<open>
  The archive is read through a \<^verbatim>\<open>FILE *\<close>. The stream delivers the bytes of \<open>content\<close>;
  what happens at their end is either end-of-file or, when \<open>fault\<close> is set, a device
  error, which sets the error indicator \<open>ferr\<close> that \<^verbatim>\<open>ferror\<close> tests. The indicator stays
  set: the source never calls \<^verbatim>\<open>clearerr\<close> or \<^verbatim>\<open>rewind\<close>.
\<close>

record in_file =
  content :: "byte list"
  fpos :: nat
  ferr :: bool
  fault :: bool
  seekable :: bool

definition fread_bytes :: "nat \<Rightarrow> in_file \<Rightarrow> byte list \<times> in_file" where
  "fread_bytes n f =
     (let got = take n (drop (fpos f) (content f))
      in (got, f\<lparr>fpos := fpos f + length got,
                 ferr := (ferr f \<or> (length got < n \<and> fault f))\<rparr>))"

definition fseek_set :: "nat \<Rightarrow> in_file \<Rightarrow> bool \<times> in_file" where
  "fseek_set off f = (if seekable f then (True, f\<lparr>fpos := off\<rparr>) else (False, f))"

definition mtf_read32 :: "in_file \<Rightarrow> (mtf_error + uint32_t) \<times> in_file" where
  "mtf_read32 f =
     (case fread_bytes 4 f of (got, f') \<Rightarrow>
        if length got = 4 then (Inr (le_word got), f') else (Inl Read32Failed, f'))"

text \<open>
  \<^verbatim>\<open>fread\<close> stores the bytes it can read also when they are fewer than the four it was
  asked for: after a failed \<^verbatim>\<open>mtf_read32\<close> the variable holds those bytes, and in the
  places they do not reach the bytes it held before.
\<close>

definition short_read32 :: "in_file \<Rightarrow> uint32_t \<Rightarrow> uint32_t" where
  "short_read32 f old =
     (case fread_bytes 4 f of (got, f') \<Rightarrow> le_word (got @ drop (length got) (le32 old)))"

definition mtf_read16 :: "in_file \<Rightarrow> (mtf_error + uint16_t) \<times> in_file" where
  "mtf_read16 f =
     (case fread_bytes 2 f of (got, f') \<Rightarrow>
        if length got = 2 then (Inr (le_word got), f') else (Inl Read16Failed, f'))"

definition mtf_read8 :: "in_file \<Rightarrow> (mtf_error + byte) \<times> in_file" where
  "mtf_read8 f =
     (case fread_bytes 1 f of
        ([], f') \<Rightarrow> (Inl Read8Failed, f')
      | (ch # _, f') \<Rightarrow> (Inr ch, f'))"

section \<open>The environment: allocation and the output file system\<close>

text \<open>
  What the C library answers is a parameter of the model: which file \<^verbatim>\<open>fopen(name, "rb")\<close>
  opens, whether an allocation of a given size succeeds, what fresh heap and stack memory
  holds before it is written, and whether \<^verbatim>\<open>fwrite\<close> of a number of bytes to a path writes
  them all.
\<close>

record os_env =
  fopen_rb :: "cstring \<Rightarrow> in_file option"
  malloc_ok :: "nat \<Rightarrow> bool"
  heap_init :: "int \<Rightarrow> byte"
  stack_init :: "byte list"
  fwrite_ok :: "cstring \<Rightarrow> nat \<Rightarrow> bool"

text \<open>
  The output file system maps a path name to a directory or to a plain file with its
  bytes. Names are compared as strings: \<^verbatim>\<open>.\<close>, \<^verbatim>\<open>..\<close> and repeated separators are not
  resolved. The directory a relative name starts in and the root directory exist.
  As POSIX has it, the empty name resolves to nothing: \<^verbatim>\<open>stat("")\<close> and \<^verbatim>\<open>mkdir("")\<close>
  fail with \<^verbatim>\<open>ENOENT\<close>.
\<close>

datatype node = Dir | File "byte list"

type_synonym fs = "cstring \<Rightarrow> node option"

definition slash :: byte where "slash = 0x2F"
definition backslash :: byte where "backslash = 0x5C"
definition qmark :: byte where "qmark = 0x3F"

definition dirname :: "cstring \<Rightarrow> cstring" where
  "dirname p = rev (drop 1 (dropWhile (\<lambda>c. c \<noteq> slash) (rev p)))"

definition parent_ok :: "fs \<Rightarrow> cstring \<Rightarrow> bool" where
  "parent_ok t p = (dirname p = [] \<or> t (dirname p) = Some Dir)"

definition stat :: "fs \<Rightarrow> cstring \<Rightarrow> node option" where
  "stat t p = (if p = [] then None else t p)"

definition mkdir :: "fs \<Rightarrow> cstring \<Rightarrow> fs option" where
  "mkdir t p =
     (if p \<noteq> [] \<and> t p = None \<and> parent_ok t p then Some (t(p \<mapsto> Dir)) else None)"

text \<open>\<^verbatim>\<open>fopen(path, "wb")\<close> creates the file or truncates it; it cannot open a directory.\<close>

definition fopen_wb :: "fs \<Rightarrow> cstring \<Rightarrow> fs option" where
  "fopen_wb t p =
     (if p \<noteq> [] \<and> last p \<noteq> slash \<and> t p \<noteq> Some Dir \<and> parent_ok t p
      then Some (t(p \<mapsto> File [])) else None)"

definition file_bytes :: "fs \<Rightarrow> cstring \<Rightarrow> byte list" where
  "file_bytes t p = (case t p of Some (File d) \<Rightarrow> d | _ \<Rightarrow> [])"

text \<open>\<^verbatim>\<open>fwrite\<close> to the open output file: all bytes are appended, or the call fails.\<close>

definition fwrite :: "os_env \<Rightarrow> cstring \<Rightarrow> byte list \<Rightarrow> fs \<Rightarrow> bool \<times> fs" where
  "fwrite env p bs t =
     (if fwrite_ok env p (length bs) then (True, t(p \<mapsto> File (file_bytes t p @ bs)))
      else (False, t))"

section \<open>The decompressor\<close>

text \<open>
  \<^verbatim>\<open>mtf_decompress_write_file\<close> writes through the pointer \<^verbatim>\<open>decompressedPtr\<close> and reads
  \<^verbatim>\<open>*(decompressedPtr - offset)\<close> with no bounds check. The model keeps the memory around
  the buffer as a function from addresses relative to the start of the buffer to bytes:
  cell \<open>i\<close> with \<open>0 \<le> i < decompressedSize\<close> is the buffer, any other cell is memory the
  buffer does not own. \<open>cur\<close> is \<^verbatim>\<open>decompressedPtr - decompressBuffer\<close>.
  The counter \<^verbatim>\<open>bytesRead\<close> of the source is incremented and never read; it has no field.

  \<^verbatim>\<open>bytesLeft\<close> is an \<^verbatim>\<open>int\<close> of 32 bits. The model keeps its value as an integer and
  writes the wrap-around out: \<open>int32 x\<close> is the value that an \<^verbatim>\<open>int\<close> holds after a step
  whose exact result is \<open>x\<close>, as two's complement arithmetic on 32 bits gives it.
\<close>

definition int32 :: "int \<Rightarrow> int" where
  "int32 x = sint (word_of_int x :: 32 word)"

record dstate =
  mem :: "int \<Rightarrow> byte"
  cur :: int
  bytesLeft :: int
  inp :: in_file

datatype ctl = Continue | Break

text \<open>The copy loop \<^verbatim>\<open>for (n = 0; n < count + 3; ++n)\<close>, by the number of rounds left.\<close>

fun copy_run :: "nat \<Rightarrow> int \<Rightarrow> dstate \<Rightarrow> dstate" where
  "copy_run 0 offset st = st"
| "copy_run (Suc k) offset st =
     copy_run k offset
       (st\<lparr>mem := (mem st)(cur st := mem st (cur st - offset)),
           cur := cur st + 1,
           bytesLeft := int32 (bytesLeft st - 1)\<rparr>)"

text \<open>The body of \<^verbatim>\<open>for (b = 0; b < 8; ++b)\<close> for one bit of the chunk byte.\<close>

definition bit_body :: "byte \<Rightarrow> nat \<Rightarrow> dstate \<Rightarrow> (mtf_error + ctl) \<times> dstate" where
  "bit_body chunkBits b st =
     (if uint chunkBits AND push_bit b 1 \<noteq> 0 then
        (case mtf_read8 (inp st) of
           (Inl e, f) \<Rightarrow> (Inl e, st\<lparr>inp := f\<rparr>)
         | (Inr byte, f) \<Rightarrow>
             (Inr Continue,
              st\<lparr>mem := (mem st)(cur st := byte),
                  cur := cur st + 1,
                  bytesLeft := int32 (bytesLeft st - 1),
                  inp := f\<rparr>))
      else
        (case mtf_read16 (inp st) of
           (Inl e, f) \<Rightarrow> (Inl e, st\<lparr>inp := f\<rparr>)
         | (Inr word, f) \<Rightarrow>
             (let st1 = st\<lparr>inp := f\<rparr> in
              if word = 0 then (Inr Break, st1)
              else
                (let count = unat (drop_bit 10 word);
                     offset = uint (word AND 0x03FF);
                     st2 = copy_run (count + 3) offset st1
                 in if bytesLeft st2 < 0 then (Inl SizeMismatch, st2)
                    else (Inr Continue, st2)))))"

function bits_loop :: "byte \<Rightarrow> nat \<Rightarrow> dstate \<Rightarrow> mtf_error option \<times> dstate" where
  "bits_loop chunkBits b st =
     (if b < 8 then
        (case bit_body chunkBits b st of
           (Inl e, st') \<Rightarrow> (Some e, st')
         | (Inr Break, st') \<Rightarrow> (None, st')
         | (Inr Continue, st') \<Rightarrow> bits_loop chunkBits (b + 1) st')
      else (None, st))"
  by pat_completeness auto
termination
  by (relation "measure (\<lambda>(c, b, st). 8 - b)") auto

declare bits_loop.simps [simp del]

lemma fread_bytesD:
  assumes "fread_bytes n f = (got, g)"
  shows "content g = content f" and "fpos g = fpos f + length got"
    and "length got = min n (length (content f) - fpos f)"
    and "got = take n (drop (fpos f) (content f))"
    and "fault g = fault f" and "seekable g = seekable f"
  using assms by (auto simp: fread_bytes_def Let_def min.commute)

text \<open>The bytes the stream can still deliver: the measure of the decoding loop.\<close>

definition remaining :: "in_file \<Rightarrow> nat" where
  "remaining f = length (content f) - fpos f"

lemma mtf_read8_remaining:
  assumes "mtf_read8 f = (Inr ch, f')"
  shows "remaining f' < remaining f"
proof -
  obtain got g where fr: "fread_bytes 1 f = (got, g)" by (cases "fread_bytes 1 f")
  with assms have ne: "got \<noteq> []" and g: "g = f'"
    by (auto simp: mtf_read8_def split: list.splits)
  from ne fread_bytesD(3) [OF fr] have lt: "fpos f < length (content f)"
    by (cases got) auto
  from ne lt g fread_bytesD(1,2) [OF fr] show ?thesis
    by (cases got) (auto simp: remaining_def)
qed

lemma mtf_read8_remaining_le: "remaining (snd (mtf_read8 f)) \<le> remaining f"
  by (auto simp: mtf_read8_def fread_bytes_def Let_def remaining_def split: list.splits)

lemma mtf_read16_remaining_le: "remaining (snd (mtf_read16 f)) \<le> remaining f"
  by (auto simp: mtf_read16_def fread_bytes_def Let_def remaining_def split: list.splits)

lemma copy_run_inp [simp]: "inp (copy_run k off st) = inp st"
  by (induction k off st rule: copy_run.induct) simp_all

lemma bit_body_remaining_le: "remaining (inp (snd (bit_body c b st))) \<le> remaining (inp st)"
  using mtf_read8_remaining_le [of "inp st"] mtf_read16_remaining_le [of "inp st"]
  by (auto simp: bit_body_def Let_def split: prod.splits sum.splits)

lemma bits_loop_remaining_le: "remaining (inp (snd (bits_loop c b st))) \<le> remaining (inp st)"
proof (induction c b st rule: bits_loop.induct)
  case (1 c b st)
  show ?case
  proof (cases "b < 8")
    case False
    then show ?thesis by (simp add: bits_loop.simps [of c b st])
  next
    case True
    note unfold = bits_loop.simps [of c b st]
    obtain r st' where bb: "bit_body c b st = (r, st')" by (cases "bit_body c b st")
    have le: "remaining (inp st') \<le> remaining (inp st)"
      using bit_body_remaining_le [of c b st] bb by simp
    show ?thesis
    proof (cases r)
      case (Inl e)
      with True bb le unfold show ?thesis by simp
    next
      case (Inr k)
      show ?thesis
      proof (cases k)
        case Break
        with True bb le Inr unfold show ?thesis by simp
      next
        case Continue
        have "remaining (inp (snd (bits_loop c (b + 1) st'))) \<le> remaining (inp st')"
          using "1.IH" [OF True bb [symmetric] Inr Continue] .
        with True bb le Inr Continue unfold show ?thesis by simp
      qed
    qed
  qed
qed

text \<open>The loop \<^verbatim>\<open>while (bytesLeft)\<close>: one chunk byte, then its eight bits.\<close>

function decode_loop :: "dstate \<Rightarrow> mtf_error option \<times> dstate" where
  "decode_loop st =
     (if bytesLeft st \<noteq> 0 then
        (case mtf_read8 (inp st) of
           (Inl e, f) \<Rightarrow> (Some e, st\<lparr>inp := f\<rparr>)
         | (Inr chunkBits, f) \<Rightarrow>
             (case bits_loop chunkBits 0 (st\<lparr>inp := f\<rparr>) of
                (Some e, st') \<Rightarrow> (Some e, st')
              | (None, st') \<Rightarrow> decode_loop st'))
      else (None, st))"
  by pat_completeness auto
termination
proof (relation "measure (\<lambda>st. remaining (inp st))")
  show "wf (measure (\<lambda>st. remaining (inp st)))" by simp
next
  fix st :: dstate and x f chunkBits y st' and z :: "mtf_error option"
  assume r: "(x, f) = mtf_read8 (inp st)" "x = Inr chunkBits"
    and b: "(z, st') = bits_loop chunkBits 0 (st\<lparr>inp := f\<rparr>)"
  have "remaining f < remaining (inp st)"
    using mtf_read8_remaining [of "inp st" chunkBits f] r by simp
  moreover have "remaining (inp st') \<le> remaining f"
    using bits_loop_remaining_le [of chunkBits 0 "st\<lparr>inp := f\<rparr>"] b [symmetric]
    by simp
  ultimately show "(st', st) \<in> measure (\<lambda>st. remaining (inp st))" by simp
qed

declare decode_loop.simps [simp del]

text \<open>The first \<open>n\<close> cells of the buffer, which \<^verbatim>\<open>fwrite\<close> sends to the output file.\<close>

definition buffer_bytes :: "(int \<Rightarrow> byte) \<Rightarrow> nat \<Rightarrow> byte list" where
  "buffer_bytes m n = map (\<lambda>i. m (int i)) [0..<n]"

text \<open>
  \<^verbatim>\<open>mtf_decompress_write_file(fileIn, fileOut, decompressedSize, compressedHeader)\<close>.
  The input stream stands behind the 12-byte header; \<open>fileOut\<close> is the path of the open
  output file. \<^verbatim>\<open>int bytesLeft = decompressedSize\<close> converts the unsigned size to a signed
  32-bit \<^verbatim>\<open>int\<close>.
\<close>

definition init_dstate :: "os_env \<Rightarrow> in_file \<Rightarrow> uint32_t \<Rightarrow> dstate" where
  "init_dstate env fileIn decompressedSize =
     \<lparr>mem = heap_init env, cur = 0, bytesLeft = sint decompressedSize, inp = fileIn\<rparr>"

definition mtf_decompress_write_file ::
  "os_env \<Rightarrow> in_file \<Rightarrow> cstring \<Rightarrow> fs \<Rightarrow> uint32_t \<Rightarrow> unit outcome \<times> in_file \<times> fs" where
  "mtf_decompress_write_file env fileIn fileOut t decompressedSize =
     (if decompressedSize = 0 then (Aborted, fileIn, t)
      else if \<not> malloc_ok env (unat decompressedSize)
      then (Failed MallocBufferFailed, fileIn, t)
      else
        (case decode_loop (init_dstate env fileIn decompressedSize) of
           (Some e, st) \<Rightarrow> (Failed e, inp st, t)
         | (None, st) \<Rightarrow>
             (case fwrite env fileOut (buffer_bytes (mem st) (unat decompressedSize)) t of
                (True, t') \<Rightarrow> (Ok (), inp st, t')
              | (False, t') \<Rightarrow> (Failed WriteDecompressedFailed, inp st, t'))))"

section \<open>Helpers for stating what the decoder reads and writes\<close>

text \<open>The next \<open>n\<close> bytes of a stream, and the stream \<open>n\<close> bytes further on.\<close>

definition peek :: "nat \<Rightarrow> in_file \<Rightarrow> byte list" where
  "peek n f = take n (drop (fpos f) (content f))"

definition skip :: "nat \<Rightarrow> in_file \<Rightarrow> in_file" where
  "skip n f = f\<lparr>fpos := fpos f + n\<rparr>"

text \<open>One byte appended at the write cursor, with the remaining counter one lower.\<close>

definition emit :: "byte \<Rightarrow> dstate \<Rightarrow> dstate" where
  "emit x st =
     st\<lparr>mem := (mem st)(cur st := x), cur := cur st + 1, bytesLeft := int32 (bytesLeft st - 1)\<rparr>"

lemma int32_take: "int32 x = signed_take_bit 31 x"
  unfolding int32_def by (simp add: signed_of_int)

lemma int32_id: "- (2 ^ 31) \<le> x \<Longrightarrow> x < 2 ^ 31 \<Longrightarrow> int32 x = x"
  unfolding int32_take by (rule signed_take_bit_int_eq_self)

lemma int32_diff: "int32 (int32 x - y) = int32 (x - y)"
  unfolding int32_def by simp

lemma int32_small [simp]: "int32 0 = 0" "int32 (- 1) = - 1"
  by (simp_all add: int32_def)

lemma fread_bytes_avail:
  "length (peek n f) = n \<Longrightarrow> fread_bytes n f = (peek n f, skip n f)"
  by (simp add: fread_bytes_def peek_def skip_def Let_def)

lemma mtf_read8_avail: "peek 1 f = [x] \<Longrightarrow> mtf_read8 f = (Inr x, skip 1 f)"
  using fread_bytes_avail [of 1 f] by (simp add: mtf_read8_def)

lemma mtf_read16_avail:
  "peek 2 f = [lo, hi] \<Longrightarrow> mtf_read16 f = (Inr (le_word [lo, hi]), skip 2 f)"
  using fread_bytes_avail [of 2 f] by (simp add: mtf_read16_def)

lemma mtf_read32_avail:
  "length (peek 4 f) = 4 \<Longrightarrow> mtf_read32 f = (Inr (le_word (peek 4 f)), skip 4 f)"
  using fread_bytes_avail [of 4 f] by (simp add: mtf_read32_def)

lemma flag_bit: "(uint (c::byte) AND 2 ^ b \<noteq> 0) = bit c b"
proof -
  have "bit (uint c) b = (uint c AND push_bit b 1 \<noteq> 0)"
    by (rule bit_iff_and_push_bit_not_eq_0)
  then show ?thesis by (auto simp: bit_uint_iff dest: bit_imp_le_length)
qed

lemma copy_run_cur [simp]: "cur (copy_run k off st) = cur st + int k"
  by (induction k off st rule: copy_run.induct) simp_all

lemma copy_run_bytesLeft:
  "0 < k \<Longrightarrow> bytesLeft (copy_run k off st) = int32 (bytesLeft st - int k)"
proof (induction k off st rule: copy_run.induct)
  case (1 off st)
  then show ?case by simp
next
  case (2 k off st)
  show ?case
  proof (cases k)
    case 0
    then show ?thesis by simp
  next
    case (Suc k')
    then have "0 < k" by simp
    from 2(1) [OF this] show ?thesis by (simp add: int32_diff algebra_simps)
  qed
qed

lemma copy_run_bytesLeft_exact:
  assumes "- (2 ^ 31) \<le> bytesLeft st - int k" "bytesLeft st < 2 ^ 31"
  shows "bytesLeft (copy_run k off st) = bytesLeft st - int k"
proof (cases k)
  case 0
  then show ?thesis by simp
next
  case (Suc k')
  then have "bytesLeft (copy_run k off st) = int32 (bytesLeft st - int k)"
    by (intro copy_run_bytesLeft) simp
  also have "\<dots> = bytesLeft st - int k" using assms by (intro int32_id) simp_all
  finally show ?thesis .
qed

lemma copy_run_frame:
  "i < cur st \<or> cur st + int k \<le> i \<Longrightarrow> mem (copy_run k off st) i = mem st i"
  by (induction k off st rule: copy_run.induct) auto

lemma copy_run_source:
  "0 \<le> off \<Longrightarrow> j < k \<Longrightarrow>
   mem (copy_run k off st) (cur st + int j) = mem (copy_run k off st) (cur st + int j - off)"
proof (induction k off st arbitrary: j rule: copy_run.induct)
  case (1 off st)
  then show ?case by simp
next
  case (2 k off st)
  let ?st1 = "st\<lparr>mem := (mem st)(cur st := mem st (cur st - off)), cur := cur st + 1,
                   bytesLeft := int32 (bytesLeft st - 1)\<rparr>"
  show ?case
  proof (cases j)
    case 0
    show ?thesis
    proof (cases "off = 0")
      case True
      with 0 show ?thesis by simp
    next
      case False
      with 2(2) have pos: "0 < off" by simp
      have a: "mem (copy_run k off ?st1) (cur st) = mem ?st1 (cur st)"
        by (rule copy_run_frame) simp
      have b: "mem (copy_run k off ?st1) (cur st - off) = mem ?st1 (cur st - off)"
        using pos by (intro copy_run_frame) simp
      from a b pos 0 show ?thesis by simp
    qed
  next
    case (Suc j')
    with 2(3) have "j' < k" by simp
    from 2(1) [OF 2(2) this] Suc show ?thesis by (simp add: algebra_simps)
  qed
qed

lemma bits_loop_literal:
  "b < 8 \<Longrightarrow> bit c b \<Longrightarrow> peek 1 (inp st) = [x] \<Longrightarrow>
   bits_loop c b st = bits_loop c (Suc b) ((emit x st)\<lparr>inp := skip 1 (inp st)\<rparr>)"
  by (simp add: bits_loop.simps [of c b] bit_body_def flag_bit mtf_read8_avail emit_def)

lemma bits_loop_zero_word:
  "b < 8 \<Longrightarrow> \<not> bit c b \<Longrightarrow> peek 2 (inp st) = [0, 0] \<Longrightarrow>
   bits_loop c b st = (None, st\<lparr>inp := skip 2 (inp st)\<rparr>)"
  by (simp add: bits_loop.simps [of c b] bit_body_def flag_bit mtf_read16_avail le_word_def le_nat_def)

lemma bits_loop_backref:
  "b < 8 \<Longrightarrow> \<not> bit c b \<Longrightarrow> peek 2 (inp st) = [lo, hi] \<Longrightarrow> (w::uint16_t) = le_word [lo, hi] \<Longrightarrow> w \<noteq> 0 \<Longrightarrow>
   bits_loop c b st =
     (let st' = copy_run (unat (drop_bit 10 w) + 3) (uint (w AND 0x3FF)) (st\<lparr>inp := skip 2 (inp st)\<rparr>)
      in if bytesLeft st' < 0 then (Some SizeMismatch, st') else bits_loop c (Suc b) st')"
  by (simp add: bits_loop.simps [of c b] bit_body_def flag_bit mtf_read16_avail Let_def)


text \<open>A seekable stream over the given bytes, with no device error.\<close>

definition stream :: "byte list \<Rightarrow> in_file" where
  "stream bs = \<lparr>content = bs, fpos = 0, ferr = False, fault = False, seekable = True\<rparr>"

text \<open>
  A compressed stream made of set-bit chunks only: every chunk byte is \<open>0xFF\<close> and is
  followed by a group of eight literal bytes.
\<close>

definition all_set_chunks :: "byte list list \<Rightarrow> byte list" where
  "all_set_chunks groups = concat (map (\<lambda>g. 0xFF # g) groups)"

text \<open>The bytes of a list appended one after the other.\<close>

definition emit_list :: "byte list \<Rightarrow> dstate \<Rightarrow> dstate" where
  "emit_list xs st = foldl (\<lambda>s x. emit x s) st xs"

lemma emit_list_simps [simp]:
  "emit_list [] st = st" "emit_list (x # xs) st = emit_list xs (emit x st)"
  by (simp_all add: emit_list_def)

lemma emit_list_append: "emit_list (xs @ ys) st = emit_list ys (emit_list xs st)"
  by (simp add: emit_list_def)

lemma emit_list_fields [simp]:
  "cur (emit_list xs st) = cur st + int (length xs)"
  "inp (emit_list xs st) = inp st"
  by (induction xs arbitrary: st) (simp_all add: emit_def)

lemma emit_list_bytesLeft:
  "xs \<noteq> [] \<Longrightarrow> bytesLeft (emit_list xs st) = int32 (bytesLeft st - int (length xs))"
proof (induction xs arbitrary: st)
  case Nil
  then show ?case by simp
next
  case (Cons x xs)
  show ?case
  proof (cases "xs = []")
    case True
    then show ?thesis by (simp add: emit_def)
  next
    case False
    from Cons.IH [OF this, of "emit x st"] show ?thesis
      by (simp add: emit_def int32_diff algebra_simps)
  qed
qed

lemma emit_list_bytesLeft_exact:
  assumes "- (2 ^ 31) \<le> bytesLeft st - int (length xs)" "bytesLeft st < 2 ^ 31"
  shows "bytesLeft (emit_list xs st) = bytesLeft st - int (length xs)"
proof (cases "xs = []")
  case True
  then show ?thesis by simp
next
  case False
  then have "bytesLeft (emit_list xs st) = int32 (bytesLeft st - int (length xs))"
    by (rule emit_list_bytesLeft)
  also have "\<dots> = bytesLeft st - int (length xs)" using assms by (intro int32_id) simp_all
  finally show ?thesis .
qed

lemma emit_list_mem:
  "mem (emit_list xs st) i =
     (if cur st \<le> i \<and> i < cur st + int (length xs) then xs ! nat (i - cur st) else mem st i)"
proof (induction xs arbitrary: st)
  case Nil
  then show ?case by auto
next
  case (Cons x xs)
  have "nat (i - (cur st + 1)) = nat (i - cur st) - Suc 0" by simp
  then show ?case
    by (simp add: Cons.IH) (auto simp: emit_def nth_Cons' nat_eq_iff)
qed

lemma emit_inp_commute: "(emit x st)\<lparr>inp := f\<rparr> = emit x (st\<lparr>inp := f\<rparr>)"
  by (simp add: emit_def)

lemma emit_inp [simp]: "inp (emit x st) = inp st"
  by (simp add: emit_def)

lemma emit_list_inp_commute: "emit_list xs (st\<lparr>inp := f\<rparr>) = (emit_list xs st)\<lparr>inp := f\<rparr>"
  by (induction xs arbitrary: st) (simp_all add: emit_inp_commute [symmetric])

lemma peek_skip: "peek n (skip k f) = drop k (peek (k + n) f)"
  by (simp add: peek_def skip_def drop_take add.commute)

lemma skip_skip [simp]: "skip n (skip k f) = skip (k + n) f"
  by (simp add: skip_def add.assoc)

lemma bit_0xFF: "b < 8 \<Longrightarrow> bit (0xFF :: byte) b"
proof -
  have "(0xFF :: byte) = mask 8" by (simp add: mask_eq_exp_minus_1)
  then show "b < 8 \<Longrightarrow> bit (0xFF :: byte) b" by (simp only: bit_mask_iff) simp
qed

lemma bits_loop_all_set:
  assumes "peek (8 - b) (inp st) = xs" "length xs = 8 - b" "b \<le> 8"
  shows "bits_loop 0xFF b st = (None, (emit_list xs st)\<lparr>inp := skip (8 - b) (inp st)\<rparr>)"
  using assms
proof (induction xs arbitrary: b st)
  case Nil
  then have "b = 8" by simp
  then show ?case by (simp add: bits_loop.simps [of _ 8] skip_def)
next
  case (Cons x xs)
  then have b: "b < 8" by auto
  have p1: "peek 1 (inp st) = [x]"
  proof -
    have "min 1 (8 - b) = 1" using b by simp
    with arg_cong [OF Cons.prems(1), of "take 1"] show ?thesis by (simp add: peek_def)
  qed
  let ?st1 = "(emit x st)\<lparr>inp := skip 1 (inp st)\<rparr>"
  have "peek (8 - Suc b) (inp ?st1) = xs"
    using Cons.prems(1) b by (simp add: peek_skip Suc_diff_Suc [symmetric] del: Suc_diff_Suc)
  moreover have "length xs = 8 - Suc b" using Cons.prems(2) by simp
  ultimately have "bits_loop 0xFF (Suc b) ?st1 =
      (None, (emit_list xs ?st1)\<lparr>inp := skip (8 - Suc b) (inp ?st1)\<rparr>)"
    using b by (intro Cons.IH) simp_all
  moreover have "Suc (7 - b) = 8 - b" using b by simp
  ultimately show ?case
    using bits_loop_literal [OF b bit_0xFF [OF b] p1] b
    by (simp add: emit_inp_commute [symmetric] emit_list_inp_commute)
qed


lemma skip_0 [simp]: "st\<lparr>inp := skip 0 (inp st)\<rparr> = st"
  by (simp add: skip_def)

lemma decode_loop_all_set:
  assumes "list_all (\<lambda>g. length g = 8) groups"
    and "bytesLeft st = int (length (concat groups))"
    and "peek (9 * length groups) (inp st) = all_set_chunks groups"
    and "length (concat groups) < 2 ^ 31"
  shows "decode_loop st =
           (None, (emit_list (concat groups) st)\<lparr>inp := skip (9 * length groups) (inp st)\<rparr>)"
  using assms
proof (induction groups arbitrary: st)
  case Nil
  then show ?case by (simp add: decode_loop.simps [of st])
next
  case (Cons xs groups)
  have lx: "length xs = 8" and all: "list_all (\<lambda>g. length g = 8) groups"
    using Cons.prems(1) by simp_all
  have pk: "peek (9 + 9 * length groups) (inp st) = 0xFF # xs @ all_set_chunks groups"
    using Cons.prems(3) by (simp add: all_set_chunks_def)
  have p1: "peek 1 (inp st) = [0xFF]"
    using arg_cong [OF pk, of "take 1"] by (simp add: peek_def)
  let ?st1 = "st\<lparr>inp := skip 1 (inp st)\<rparr>"
  have p8: "peek (8 - 0) (inp ?st1) = xs"
  proof -
    have "peek 8 (inp ?st1) = drop 1 (peek 9 (inp st))" by (simp add: peek_skip)
    also have "peek 9 (inp st) = take 9 (peek (9 + 9 * length groups) (inp st))"
      by (simp add: peek_def)
    finally show ?thesis using lx by (simp add: pk drop_Suc)
  qed
  let ?st2 = "(emit_list xs ?st1)\<lparr>inp := skip (8 - 0) (inp ?st1)\<rparr>"
  have bl: "bits_loop 0xFF 0 ?st1 = (None, ?st2)"
    using bits_loop_all_set [OF p8] lx by simp
  have small: "length (concat groups) < 2 ^ 31" using Cons.prems(4) by simp
  have "bytesLeft (emit_list xs ?st1) = bytesLeft ?st1 - int (length xs)"
    using Cons.prems(2,4) lx by (intro emit_list_bytesLeft_exact) simp_all
  then have left: "bytesLeft ?st2 = int (length (concat groups))"
    using Cons.prems(2) lx by simp
  have pk2: "peek (9 * length groups) (inp ?st2) = all_set_chunks groups"
  proof -
    have "peek (9 * length groups) (inp ?st2) = drop 9 (peek (9 + 9 * length groups) (inp st))"
      by (simp add: peek_skip)
    then show ?thesis using lx by (simp add: pk)
  qed
  have "decode_loop ?st2 =
      (None, (emit_list (concat groups) ?st2)\<lparr>inp := skip (9 * length groups) (inp ?st2)\<rparr>)"
    by (rule Cons.IH [OF all left pk2 small])
  moreover have "decode_loop st = decode_loop ?st2"
    using Cons.prems(2) lx p1 bl
    by (subst decode_loop.simps) (simp add: mtf_read8_avail)
  ultimately show ?case
    by (simp add: emit_list_append emit_list_inp_commute add.commute)
qed

section \<open>Concrete inputs\<close>

text \<open>
  An environment in which every allocation and every write succeeds and fresh memory is
  zero, and an empty output file system.
\<close>

definition plain_env :: os_env where
  "plain_env =
     \<lparr>fopen_rb = (\<lambda>name. None), malloc_ok = (\<lambda>n. True), heap_init = (\<lambda>a. 0),
      stack_init = replicate 12 0, fwrite_ok = (\<lambda>p n. True)\<rparr>"

definition no_files :: fs where
  "no_files = (\<lambda>p. None)"

section \<open>What the decoder computes\<close>

lemma le_nat_pair: "le_nat [lo, hi] = unat lo + 256 * unat hi"
  by (simp add: le_nat_def)

lemma le_word_pair: "unat (le_word [lo, hi] :: uint16_t) = unat lo + 256 * unat hi"
proof -
  have "unat lo < 256" "unat hi < 256"
    using unsigned_less [of lo] unsigned_less [of hi] by simp_all
  then have "unat lo + 256 * unat hi < 65536" by arith
  then have "(unat lo + 256 * unat hi) mod 65536 = unat lo + 256 * unat hi"
    by (rule mod_less)
  moreover have "unat ((word_of_nat (unat lo + 256 * unat hi)) :: 16 word) =
      (unat lo + 256 * unat hi) mod 2 ^ 16"
    by (simp only: unat_of_nat len_bit0 len_num1 mult_1_right numeral_times_numeral semiring_norm)
  ultimately show ?thesis by (simp add: le_word_def le_nat_pair)
qed

lemma uint_small: "unat (w :: uint32_t) < 2 ^ 31 \<Longrightarrow> uint w < 2 ^ 31"
proof -
  assume "unat w < 2 ^ 31"
  then have "int (unat w) < int (2 ^ 31)" by (rule iffD2 [OF of_nat_less_iff])
  then show ?thesis by (simp only: uint_nat of_nat_power of_nat_numeral)
qed

lemma sint_small:
  assumes "unat (w :: uint32_t) < 2 ^ 31"
  shows "sint w = int (unat w)"
proof -
  have u: "uint w < 2 ^ 31" using assms by (rule uint_small)
  have "0 \<le> uint w" by (rule uint_ge_0)
  moreover have "- (2 ^ 31) \<le> (0 :: int)" by simp
  ultimately have l: "- (2 ^ 31) \<le> uint w" by (rule order_trans [rotated])
  have "sint w = signed_take_bit 31 (uint w)" using sint_uint [of w] by simp
  also have "\<dots> = uint w"
    using l u by (rule signed_take_bit_int_eq_self)
  finally show ?thesis by (simp only: uint_nat)
qed

lemma buffer_bytes_emit_list:
  "cur st = 0 \<Longrightarrow> buffer_bytes (mem (emit_list xs st)) (length xs) = xs"
  by (auto simp: buffer_bytes_def emit_list_mem intro: nth_equalityI)

lemma decode_loop_step:
  "bytesLeft st \<noteq> 0 \<Longrightarrow> peek 1 (inp st) = [c] \<Longrightarrow>
   decode_loop st =
     (case bits_loop c 0 (st\<lparr>inp := skip 1 (inp st)\<rparr>) of
        (Some e, st') \<Rightarrow> (Some e, st')
      | (None, st') \<Rightarrow> decode_loop st')"
  by (subst decode_loop.simps) (simp add: mtf_read8_avail)

lemma copy_run_three:
  "mem st (cur st - 1) = x \<Longrightarrow> copy_run 3 1 st = emit_list [x, x, x] st"
  by (simp add: eval_nat_numeral emit_def)

lemma decompress_all_set:
  assumes grp: "list_all (\<lambda>g. length g = 8) groups" "groups \<noteq> []"
    and len: "length (concat groups) < 2 ^ 31"
    and size: "unat decompressedSize = length (concat groups)"
    and inp: "peek (9 * length groups) fileIn = all_set_chunks groups"
    and env: "malloc_ok env (length (concat groups))"
      "fwrite_ok env fileOut (length (concat groups))"
  shows "mtf_decompress_write_file env fileIn fileOut t decompressedSize =
           (Ok (), skip (9 * length groups) fileIn,
            t(fileOut \<mapsto> File (file_bytes t fileOut @ concat groups)))"
proof -
  let ?st = "init_dstate env fileIn decompressedSize"
  let ?lits = "concat groups"
  have "0 < length ?lits" using grp by (cases groups) auto
  then have nz: "decompressedSize \<noteq> 0" using size by auto
  have "sint decompressedSize = int (length ?lits)"
    using sint_small [of decompressedSize] len size by simp
  then have left: "bytesLeft ?st = int (length ?lits)" by (simp add: init_dstate_def)
  have "peek (9 * length groups) (inp ?st) = all_set_chunks groups"
    using inp by (simp add: init_dstate_def)
  from decode_loop_all_set [OF grp(1) left this len]
  have dl: "decode_loop ?st = (None, (emit_list ?lits ?st)\<lparr>inp := skip (9 * length groups) fileIn\<rparr>)"
    by (simp add: init_dstate_def)
  have "buffer_bytes (mem (emit_list ?lits ?st)) (length ?lits) = ?lits"
    by (rule buffer_bytes_emit_list) (simp add: init_dstate_def)
  with nz dl env size show ?thesis
    by (simp add: mtf_decompress_write_file_def fwrite_def)
qed

lemma copy_run_mem:
  assumes "0 < off" "j < n"
  shows "mem (copy_run n off st) (cur st + int j) = mem st (cur st - off + int j mod off)"
  using assms(2)
proof (induction j rule: less_induct)
  case (less j)
  have src: "mem (copy_run n off st) (cur st + int j) =
      mem (copy_run n off st) (cur st + int j - off)"
    using assms(1) less.prems by (intro copy_run_source) simp_all
  show ?case
  proof (cases "int j < off")
    case True
    have "mem (copy_run n off st) (cur st + int j - off) = mem st (cur st + int j - off)"
      using True by (intro copy_run_frame) simp
    moreover have "int j mod off = int j" using True by simp
    ultimately show ?thesis using src by (simp add: algebra_simps)
  next
    case False
    define j' where "j' = j - nat off"
    have j': "int j' = int j - off" "j' < j" "j' < n"
      using False assms(1) less.prems by (simp_all add: j'_def)
    have ih: "mem (copy_run n off st) (cur st + int j') = mem st (cur st - off + int j' mod off)"
      using j'(2,3) by (rule less.IH)
    have m: "int j' mod off = int j mod off" by (simp add: j'(1))
    have e: "cur st + int j - off = cur st + int j'" by (simp add: j'(1))
    show ?thesis unfolding src e ih m by (rule refl)
  qed
qed

lemma copy_run_zero_offset: "mem (copy_run n 0 st) = mem st"
proof (induction n arbitrary: st)
  case 0
  then show ?case by simp
next
  case (Suc n)
  show ?case by (simp add: Suc.IH)
qed

lemma emit_fields:
  "mem (emit x st) = (mem st)(cur st := x)" "cur (emit x st) = cur st + 1"
  "bytesLeft (emit x st) = int32 (bytesLeft st - 1)"
  by (simp_all add: emit_def)

text \<open>
  Claim C2. After the header the decoder reads one control byte at a time and handles its
  bits from bit 0 up to bit 7. A set bit appends one literal byte and lowers the remaining
  counter by one. A clear bit reads a 16-bit little-endian word; a nonzero word copies
  \<open>(word >> 10) + 3\<close> bytes one at a time, each from \<open>word & 0x3FF\<close> cells behind the
  write cursor, so that an overlapping run repeats what it has just written: with a
  positive offset the run repeats the \<open>offset\<close> cells in front of it again and again, and
  with offset 0 every cell is copied onto itself. The counter is a 32-bit \<^verbatim>\<open>int\<close>; where
  the exact difference fits, it is lowered by the number of bytes. A word with
  count 0 and offset 1 behind a byte \<open>0x41\<close> appends three bytes \<open>0x41\<close>, and a stream
  of set-bit chunks only gives back its literal bytes.
\<close>

theorem decoder_follows_chunk_format:
  fixes st :: dstate and c x lo hi :: byte and w :: uint16_t
  shows
    "(bytesLeft st \<noteq> 0 \<and> peek 1 (inp st) = [c] \<longrightarrow>
        decode_loop st =
          (case bits_loop c 0 (st\<lparr>inp := skip 1 (inp st)\<rparr>) of
             (Some e, st') \<Rightarrow> (Some e, st')
           | (None, st') \<Rightarrow> decode_loop st'))
   \<and> (8 \<le> b \<longrightarrow> bits_loop c b st = (None, st))
   \<and> (b < 8 \<and> bit c b \<and> peek 1 (inp st) = [x] \<longrightarrow>
        bits_loop c b st = bits_loop c (Suc b) ((emit x st)\<lparr>inp := skip 1 (inp st)\<rparr>) \<and>
        mem (emit x st) = (mem st)(cur st := x) \<and> cur (emit x st) = cur st + 1 \<and>
        bytesLeft (emit x st) = int32 (bytesLeft st - 1) \<and>
        (- (2 ^ 31) < bytesLeft st \<and> bytesLeft st < 2 ^ 31 \<longrightarrow>
           bytesLeft (emit x st) = bytesLeft st - 1))
   \<and> (b < 8 \<and> \<not> bit c b \<and> peek 2 (inp st) = [lo, hi] \<and> w = le_word [lo, hi] \<and> w \<noteq> 0 \<longrightarrow>
        unat w = unat lo + 256 * unat hi \<and>
        bits_loop c b st =
          (let st' = copy_run (unat (drop_bit 10 w) + 3) (uint (w AND 0x03FF))
                       (st\<lparr>inp := skip 2 (inp st)\<rparr>)
           in if bytesLeft st' < 0 then (Some SizeMismatch, st') else bits_loop c (Suc b) st'))
   \<and> cur (copy_run n off st) = cur st + int n
   \<and> (0 < n \<longrightarrow> bytesLeft (copy_run n off st) = int32 (bytesLeft st - int n))
   \<and> (- (2 ^ 31) \<le> bytesLeft st - int n \<and> bytesLeft st < 2 ^ 31 \<longrightarrow>
        bytesLeft (copy_run n off st) = bytesLeft st - int n)
   \<and> (0 < off \<longrightarrow>
        (\<forall>j<n. mem (copy_run n off st) (cur st + int j) =
                mem (copy_run n off st) (cur st + int j - off)) \<and>
        (\<forall>j<n. mem (copy_run n off st) (cur st + int j) =
                mem st (cur st - off + int j mod off)))
   \<and> mem (copy_run n 0 st) = mem st
   \<and> (\<forall>i. i < cur st \<or> cur st + int n \<le> i \<longrightarrow> mem (copy_run n off st) i = mem st i)
   \<and> (b < 8 \<and> \<not> bit c b \<and> peek 2 (inp st) = [1, 0] \<and> mem st (cur st - 1) = 0x41 \<and>
        3 \<le> bytesLeft st \<and> bytesLeft st < 2 ^ 31 \<longrightarrow>
        bits_loop c b st =
          bits_loop c (Suc b) ((emit_list [0x41, 0x41, 0x41] st)\<lparr>inp := skip 2 (inp st)\<rparr>) \<and>
        mem (emit_list [0x41, 0x41, 0x41] st) =
          (mem st)(cur st := 0x41, cur st + 1 := 0x41, cur st + 2 := 0x41) \<and>
        cur (emit_list [0x41, 0x41, 0x41] st) = cur st + 3 \<and>
        bytesLeft (emit_list [0x41, 0x41, 0x41] st) = bytesLeft st - 3)
   \<and> (list_all (\<lambda>g. length g = 8) groups \<and> bytesLeft st = int (length (concat groups)) \<and>
        length (concat groups) < 2 ^ 31 \<and>
        peek (9 * length groups) (inp st) = all_set_chunks groups \<longrightarrow>
        decode_loop st =
          (None, (emit_list (concat groups) st)\<lparr>inp := skip (9 * length groups) (inp st)\<rparr>) \<and>
        (cur st = 0 \<longrightarrow>
           buffer_bytes (mem (emit_list (concat groups) st)) (length (concat groups)) =
             concat groups))
   \<and> (list_all (\<lambda>g. length g = 8) groups \<and> groups \<noteq> [] \<and>
        length (concat groups) < 2 ^ 31 \<and> unat decompressedSize = length (concat groups) \<and>
        peek (9 * length groups) fileIn = all_set_chunks groups \<and>
        malloc_ok env (length (concat groups)) \<and> fwrite_ok env fileOut (length (concat groups)) \<longrightarrow>
        mtf_decompress_write_file env fileIn fileOut t decompressedSize =
          (Ok (), skip (9 * length groups) fileIn,
           t(fileOut \<mapsto> File (file_bytes t fileOut @ concat groups))))"
proof (intro conjI impI allI; (elim conjE)?)
  show "bytesLeft st \<noteq> 0 \<Longrightarrow> peek 1 (inp st) = [c] \<Longrightarrow>
        decode_loop st =
          (case bits_loop c 0 (st\<lparr>inp := skip 1 (inp st)\<rparr>) of
             (Some e, st') \<Rightarrow> (Some e, st')
           | (None, st') \<Rightarrow> decode_loop st')"
    by (rule decode_loop_step)
  show "8 \<le> b \<Longrightarrow> bits_loop c b st = (None, st)"
    by (simp add: bits_loop.simps [of c b st])
  show "b < 8 \<Longrightarrow> bit c b \<Longrightarrow> peek 1 (inp st) = [x] \<Longrightarrow>
        bits_loop c b st = bits_loop c (Suc b) ((emit x st)\<lparr>inp := skip 1 (inp st)\<rparr>)"
    by (rule bits_loop_literal)
  show "mem (emit x st) = (mem st)(cur st := x)" "cur (emit x st) = cur st + 1"
    "bytesLeft (emit x st) = int32 (bytesLeft st - 1)"
    by (rule emit_fields)+
  show "- (2 ^ 31) < bytesLeft st \<Longrightarrow> bytesLeft st < 2 ^ 31 \<Longrightarrow>
        bytesLeft (emit x st) = bytesLeft st - 1"
    by (simp add: emit_fields int32_id)
  show "w = le_word [lo, hi] \<Longrightarrow> unat w = unat lo + 256 * unat hi"
    by (simp add: le_word_pair)
  show "b < 8 \<Longrightarrow> \<not> bit c b \<Longrightarrow> peek 2 (inp st) = [lo, hi] \<Longrightarrow> w = le_word [lo, hi] \<Longrightarrow> w \<noteq> 0 \<Longrightarrow>
        bits_loop c b st =
          (let st' = copy_run (unat (drop_bit 10 w) + 3) (uint (w AND 0x03FF))
                       (st\<lparr>inp := skip 2 (inp st)\<rparr>)
           in if bytesLeft st' < 0 then (Some SizeMismatch, st') else bits_loop c (Suc b) st')"
    by (rule bits_loop_backref)
  show "cur (copy_run n off st) = cur st + int n" by simp
  show "0 < n \<Longrightarrow> bytesLeft (copy_run n off st) = int32 (bytesLeft st - int n)"
    by (rule copy_run_bytesLeft)
  show "- (2 ^ 31) \<le> bytesLeft st - int n \<Longrightarrow> bytesLeft st < 2 ^ 31 \<Longrightarrow>
        bytesLeft (copy_run n off st) = bytesLeft st - int n"
    by (rule copy_run_bytesLeft_exact)
  show "\<And>j. 0 < off \<Longrightarrow> j < n \<Longrightarrow>
        mem (copy_run n off st) (cur st + int j) = mem (copy_run n off st) (cur st + int j - off)"
    by (rule copy_run_source) simp_all
  show "\<And>j. 0 < off \<Longrightarrow> j < n \<Longrightarrow>
        mem (copy_run n off st) (cur st + int j) = mem st (cur st - off + int j mod off)"
    by (rule copy_run_mem)
  show "mem (copy_run n 0 st) = mem st" by (rule copy_run_zero_offset)
  show "\<And>i. i < cur st \<or> cur st + int n \<le> i \<Longrightarrow> mem (copy_run n off st) i = mem st i"
    by (rule copy_run_frame)
  show "b < 8 \<Longrightarrow> \<not> bit c b \<Longrightarrow> peek 2 (inp st) = [1, 0] \<Longrightarrow> mem st (cur st - 1) = 0x41 \<Longrightarrow>
        3 \<le> bytesLeft st \<Longrightarrow> bytesLeft st < 2 ^ 31 \<Longrightarrow>
        bits_loop c b st =
          bits_loop c (Suc b) ((emit_list [0x41, 0x41, 0x41] st)\<lparr>inp := skip 2 (inp st)\<rparr>)"
  proof -
    assume a: "b < 8" "\<not> bit c b" "peek 2 (inp st) = [1, 0]" "mem st (cur st - 1) = 0x41"
      "3 \<le> bytesLeft st" "bytesLeft st < 2 ^ 31"
    have w: "(le_word [1, 0] :: uint16_t) = 1" by (simp add: le_word_def le_nat_def)
    let ?st1 = "st\<lparr>inp := skip 2 (inp st)\<rparr>"
    have cr: "copy_run 3 1 ?st1 = (emit_list [0x41, 0x41, 0x41] st)\<lparr>inp := skip 2 (inp st)\<rparr>"
      using a(4) by (simp add: copy_run_three emit_list_inp_commute)
    have "bytesLeft (copy_run 3 1 ?st1) = bytesLeft ?st1 - int 3"
      using a(5,6) by (intro copy_run_bytesLeft_exact) simp_all
    then have "\<not> bytesLeft (copy_run 3 1 ?st1) < 0" using a(5) by simp
    with bits_loop_backref [OF a(1,2,3) w [symmetric]] cr show ?thesis
      by (simp add: drop_bit_eq_div Let_def)
  qed
  show "mem (emit_list [0x41, 0x41, 0x41] st) =
          (mem st)(cur st := 0x41, cur st + 1 := 0x41, cur st + 2 := 0x41)"
    by (simp add: emit_def add.commute)
  show "cur (emit_list [0x41, 0x41, 0x41] st) = cur st + 3" by (simp add: emit_def)
  show "3 \<le> bytesLeft st \<Longrightarrow> bytesLeft st < 2 ^ 31 \<Longrightarrow>
        bytesLeft (emit_list [0x41, 0x41, 0x41] st) = bytesLeft st - 3"
    using emit_list_bytesLeft_exact [of st "[0x41, 0x41, 0x41]"] by simp
  show "list_all (\<lambda>g. length g = 8) groups \<Longrightarrow> bytesLeft st = int (length (concat groups)) \<Longrightarrow>
        length (concat groups) < 2 ^ 31 \<Longrightarrow>
        peek (9 * length groups) (inp st) = all_set_chunks groups \<Longrightarrow>
        decode_loop st =
          (None, (emit_list (concat groups) st)\<lparr>inp := skip (9 * length groups) (inp st)\<rparr>)"
    by (rule decode_loop_all_set)
  show "cur st = 0 \<Longrightarrow>
        buffer_bytes (mem (emit_list (concat groups) st)) (length (concat groups)) = concat groups"
    by (rule buffer_bytes_emit_list)
  show "list_all (\<lambda>g. length g = 8) groups \<Longrightarrow> groups \<noteq> [] \<Longrightarrow>
        length (concat groups) < 2 ^ 31 \<Longrightarrow> unat decompressedSize = length (concat groups) \<Longrightarrow>
        peek (9 * length groups) fileIn = all_set_chunks groups \<Longrightarrow>
        malloc_ok env (length (concat groups)) \<Longrightarrow> fwrite_ok env fileOut (length (concat groups)) \<Longrightarrow>
        mtf_decompress_write_file env fileIn fileOut t decompressedSize =
          (Ok (), skip (9 * length groups) fileIn,
           t(fileOut \<mapsto> File (file_bytes t fileOut @ concat groups)))"
    by (rule decompress_all_set)
qed

text \<open>
  A decoder state over memory that holds \<open>0x41\<close> everywhere, a decoder state that has
  written one byte \<open>0x41\<close> into memory that holds zero, and an output path.
\<close>

definition demo_state :: "byte list \<Rightarrow> int \<Rightarrow> dstate" where
  "demo_state bs n = \<lparr>mem = (\<lambda>a. 0x41), cur = 0, bytesLeft = n, inp = stream bs\<rparr>"

definition literal_state :: "byte list \<Rightarrow> int \<Rightarrow> dstate" where
  "literal_state bs n = \<lparr>mem = (\<lambda>a. 0)(0 := 0x41), cur = 1, bytesLeft = n, inp = stream bs\<rparr>"

definition demo_path :: cstring where
  "demo_path = [0x6F, 0x75, 0x74]"

theorem decoder_follows_chunk_format_witness:
  "decode_loop (demo_state [0xFF, 1, 2, 3, 4, 5, 6, 7, 8] 8) =
     (case bits_loop 0xFF 0 ((demo_state [0xFF, 1, 2, 3, 4, 5, 6, 7, 8] 8)\<lparr>inp := skip 1 (stream [0xFF, 1, 2, 3, 4, 5, 6, 7, 8])\<rparr>) of
        (Some e, st') \<Rightarrow> (Some e, st')
      | (None, st') \<Rightarrow> decode_loop st')
   \<and> bits_loop 0 8 (literal_state [1, 0] 3) = (None, literal_state [1, 0] 3)
   \<and> bits_loop 0xFF 0 (demo_state [0xFF, 1, 2, 3, 4, 5, 6, 7, 8] 8) =
       bits_loop 0xFF 1 ((emit 0xFF (demo_state [0xFF, 1, 2, 3, 4, 5, 6, 7, 8] 8))\<lparr>inp := skip 1 (stream [0xFF, 1, 2, 3, 4, 5, 6, 7, 8])\<rparr>)
   \<and> bytesLeft (emit 0xFF (demo_state [0xFF, 1, 2, 3, 4, 5, 6, 7, 8] 8)) = 7
   \<and> bits_loop 0 0 (literal_state [1, 0] 3) =
       bits_loop 0 1 (copy_run 3 1 ((literal_state [1, 0] 3)\<lparr>inp := skip 2 (stream [1, 0])\<rparr>))
   \<and> cur (copy_run 3 1 (literal_state [1, 0] 3)) = 4
   \<and> bytesLeft (copy_run 3 1 (literal_state [1, 0] 3)) = 0
   \<and> mem (literal_state [1, 0] 3) 3 = 0
   \<and> mem (copy_run 3 1 (literal_state [1, 0] 3)) 3 = mem (copy_run 3 1 (literal_state [1, 0] 3)) 2
   \<and> mem (copy_run 3 1 (literal_state [1, 0] 3)) 3 = 0x41
   \<and> mem (copy_run 3 0 (literal_state [1, 0] 3)) 3 = 0
   \<and> mem (copy_run 3 1 (literal_state [1, 0] 3)) 4 = 0
   \<and> bits_loop 0 0 (literal_state [1, 0] 3) =
       bits_loop 0 1 ((emit_list [0x41, 0x41, 0x41] (literal_state [1, 0] 3))
                        \<lparr>inp := skip 2 (stream [1, 0])\<rparr>)
   \<and> mem (emit_list [0x41, 0x41, 0x41] (literal_state [1, 0] 3)) =
       (\<lambda>a. 0)(0 := 0x41, 1 := 0x41, 2 := 0x41, 3 := 0x41)
   \<and> decode_loop (demo_state [0xFF, 1, 2, 3, 4, 5, 6, 7, 8] 8) =
       (None, (emit_list [1, 2, 3, 4, 5, 6, 7, 8] (demo_state [0xFF, 1, 2, 3, 4, 5, 6, 7, 8] 8))
                \<lparr>inp := skip 9 (stream [0xFF, 1, 2, 3, 4, 5, 6, 7, 8])\<rparr>)
   \<and> mtf_decompress_write_file plain_env (stream [0xFF, 1, 2, 3, 4, 5, 6, 7, 8]) demo_path no_files 8 =
       (Ok (), skip 9 (stream [0xFF, 1, 2, 3, 4, 5, 6, 7, 8]), no_files(demo_path \<mapsto> File [1, 2, 3, 4, 5, 6, 7, 8]))"
proof -
  let ?bs = "[0xFF, 1, 2, 3, 4, 5, 6, 7, 8] :: byte list"
  let ?s1 = "demo_state ?bs 8"
  let ?s2 = "literal_state [1, 0] 3"
  let ?g = "[[1, 2, 3, 4, 5, 6, 7, 8]] :: byte list list"
  note a = decoder_follows_chunk_format [where st = "?s1" and c = "0xFF" and x = "0xFF" and b = 0
      and groups = "?g" and env = plain_env and fileIn = "stream ?bs" and fileOut = demo_path
      and t = no_files and decompressedSize = 8 and off = 1 and n = 3]
  note b = decoder_follows_chunk_format [where st = "?s2" and c = 0 and b = 0 and lo = 1 and hi = 0
      and w = 1 and off = 1 and n = 3]
  note c = decoder_follows_chunk_format [where st = "?s2" and c = 0 and b = 8]
  note a1 = a [THEN conjunct1]
  note a3 = a [THEN conjunct2, THEN conjunct2, THEN conjunct1]
  note a12 = a [THEN conjunct2, THEN conjunct2, THEN conjunct2, THEN conjunct2, THEN conjunct2, THEN conjunct2, THEN conjunct2, THEN conjunct2, THEN conjunct2, THEN conjunct2, THEN conjunct2, THEN conjunct1]
  note a13 = a [THEN conjunct2, THEN conjunct2, THEN conjunct2, THEN conjunct2, THEN conjunct2, THEN conjunct2, THEN conjunct2, THEN conjunct2, THEN conjunct2, THEN conjunct2, THEN conjunct2, THEN conjunct2]
  note b4 = b [THEN conjunct2, THEN conjunct2, THEN conjunct2, THEN conjunct1]
  note b5 = b [THEN conjunct2, THEN conjunct2, THEN conjunct2, THEN conjunct2, THEN conjunct1]
  note b6 = b [THEN conjunct2, THEN conjunct2, THEN conjunct2, THEN conjunct2, THEN conjunct2, THEN conjunct1]
  note b7 = b [THEN conjunct2, THEN conjunct2, THEN conjunct2, THEN conjunct2, THEN conjunct2, THEN conjunct2, THEN conjunct1]
  note b8 = b [THEN conjunct2, THEN conjunct2, THEN conjunct2, THEN conjunct2, THEN conjunct2, THEN conjunct2, THEN conjunct2, THEN conjunct1]
  note b9 = b [THEN conjunct2, THEN conjunct2, THEN conjunct2, THEN conjunct2, THEN conjunct2, THEN conjunct2, THEN conjunct2, THEN conjunct2, THEN conjunct1]
  note b10 = b [THEN conjunct2, THEN conjunct2, THEN conjunct2, THEN conjunct2, THEN conjunct2, THEN conjunct2, THEN conjunct2, THEN conjunct2, THEN conjunct2, THEN conjunct1]
  note b11 = b [THEN conjunct2, THEN conjunct2, THEN conjunct2, THEN conjunct2, THEN conjunct2, THEN conjunct2, THEN conjunct2, THEN conjunct2, THEN conjunct2, THEN conjunct2, THEN conjunct1]
  note c2 = c [THEN conjunct2, THEN conjunct1]
  have inp1: "inp ?s1 = stream ?bs" and inp2: "inp ?s2 = stream [1, 0]"
    and cur2: "cur ?s2 = 1" and left2: "bytesLeft ?s2 = 3" and left1: "bytesLeft ?s1 = 8"
    and mem2: "mem ?s2 = (\<lambda>a. 0)(0 := 0x41)"
    by (simp_all add: demo_state_def literal_state_def)
  have h1: "bytesLeft ?s1 \<noteq> 0 \<and> peek 1 (inp ?s1) = [0xFF]"
    by (simp add: demo_state_def stream_def peek_def)
  have d1: "decode_loop ?s1 =
     (case bits_loop 0xFF 0 (?s1\<lparr>inp := skip 1 (inp ?s1)\<rparr>) of
        (Some e, st') \<Rightarrow> (Some e, st') | (None, st') \<Rightarrow> decode_loop st')"
    using a1 h1 by (rule mp)
  have h2: "(8::nat) \<le> 8" by simp
  have d2: "bits_loop 0 8 ?s2 = (None, ?s2)" using c2 h2 by (rule mp)
  have h3: "(0::nat) < 8 \<and> bit (0xFF::byte) (0::nat) \<and> peek 1 (inp ?s1) = [0xFF]"
    by (simp add: demo_state_def stream_def peek_def)
  note r3 = mp [OF a3 h3]
  have d3: "bits_loop 0xFF 0 ?s1 = bits_loop 0xFF (Suc 0) ((emit 0xFF ?s1)\<lparr>inp := skip 1 (inp ?s1)\<rparr>)"
    using r3 by (rule conjunct1)
  have h3': "- (2 ^ 31) < bytesLeft ?s1 \<and> bytesLeft ?s1 < 2 ^ 31" by (simp add: left1)
  have d3': "bytesLeft (emit 0xFF ?s1) = 7"
    using r3 [THEN conjunct2, THEN conjunct2, THEN conjunct2, THEN conjunct2, THEN mp, OF h3']
    by (simp add: left1)
  have h4: "(0::nat) < 8 \<and> \<not> bit (0::byte) (0::nat) \<and> peek 2 (inp ?s2) = [1, 0] \<and>
      (1 :: uint16_t) = le_word [1, 0] \<and> (1 :: uint16_t) \<noteq> 0"
    by (simp add: literal_state_def stream_def peek_def le_word_def le_nat_def)
  have h7: "- (2 ^ 31) \<le> bytesLeft ?s2 - int 3 \<and> bytesLeft ?s2 < 2 ^ 31" by (simp add: left2)
  have d7: "bytesLeft (copy_run 3 1 ?s2) = 0" using mp [OF b7 h7] by (simp add: left2)
  have d7': "bytesLeft (copy_run 3 1 (?s2\<lparr>inp := skip 2 (inp ?s2)\<rparr>)) = 0"
    using decoder_follows_chunk_format [where st = "?s2\<lparr>inp := skip 2 (inp ?s2)\<rparr>" and n = 3
        and off = 1, THEN conjunct2, THEN conjunct2, THEN conjunct2, THEN conjunct2, THEN conjunct2, THEN conjunct2, THEN conjunct1, THEN mp]
    by (simp add: left2)
  have d4: "bits_loop 0 0 ?s2 = bits_loop 0 (Suc 0) (copy_run 3 1 (?s2\<lparr>inp := skip 2 (inp ?s2)\<rparr>))"
    using mp [OF b4 h4, THEN conjunct2] d7' by (simp add: drop_bit_eq_div Let_def)
  have d5: "cur (copy_run 3 1 ?s2) = 4" using b5 by (simp add: cur2)
  have h6: "(0::nat) < 3" by simp
  have d6: "bytesLeft (copy_run 3 1 ?s2) = int32 (bytesLeft ?s2 - int 3)" using b6 h6 by (rule mp)
  have h8: "(0::int) < 1" by simp
  note r8 = mp [OF b8 h8]
  have d8: "mem (copy_run 3 1 ?s2) 3 = mem (copy_run 3 1 ?s2) 2"
    using r8 [THEN conjunct1, rule_format, of 2] by (simp add: cur2)
  have d8': "mem (copy_run 3 1 ?s2) 3 = 0x41"
    using r8 [THEN conjunct2, rule_format, of 2] by (simp add: cur2 mem2)
  have d9: "mem (copy_run 3 0 ?s2) 3 = 0" using b9 by (simp add: mem2)
  have d10: "mem (copy_run 3 1 ?s2) 4 = 0"
    using b10 [rule_format, of 4] by (simp add: cur2 mem2)
  have h11: "(0::nat) < 8 \<and> \<not> bit (0::byte) (0::nat) \<and> peek 2 (inp ?s2) = [1, 0] \<and>
      mem ?s2 (cur ?s2 - 1) = 0x41 \<and> 3 \<le> bytesLeft ?s2 \<and> bytesLeft ?s2 < 2 ^ 31"
    by (simp add: literal_state_def stream_def peek_def)
  note r11 = mp [OF b11 h11]
  have d11: "bits_loop 0 0 ?s2 =
      bits_loop 0 (Suc 0) ((emit_list [0x41, 0x41, 0x41] ?s2)\<lparr>inp := skip 2 (inp ?s2)\<rparr>)"
    using r11 by (rule conjunct1)
  have d11': "mem (emit_list [0x41, 0x41, 0x41] ?s2) =
      (\<lambda>a. 0)(0 := 0x41, 1 := 0x41, 2 := 0x41, 3 := 0x41)"
    using r11 [THEN conjunct2, THEN conjunct1] by (simp add: cur2 mem2)
  have h12: "list_all (\<lambda>g. length g = 8) ?g \<and> bytesLeft ?s1 = int (length (concat ?g)) \<and>
      length (concat ?g) < 2 ^ 31 \<and>
      peek (9 * length ?g) (inp ?s1) = all_set_chunks ?g"
    by (simp add: demo_state_def stream_def peek_def all_set_chunks_def)
  have d12: "decode_loop ?s1 =
      (None, (emit_list (concat ?g) ?s1)\<lparr>inp := skip (9 * length ?g) (inp ?s1)\<rparr>)"
    using a12 h12 by (rule mp [THEN conjunct1])
  have h13: "list_all (\<lambda>g. length g = 8) ?g \<and> ?g \<noteq> [] \<and> length (concat ?g) < 2 ^ 31 \<and>
      unat (8 :: uint32_t) = length (concat ?g) \<and>
      peek (9 * length ?g) (stream ?bs) = all_set_chunks ?g \<and>
      malloc_ok plain_env (length (concat ?g)) \<and> fwrite_ok plain_env demo_path (length (concat ?g))"
    by (simp add: stream_def peek_def all_set_chunks_def plain_env_def)
  have d13: "mtf_decompress_write_file plain_env (stream ?bs) demo_path no_files 8 =
      (Ok (), skip (9 * length ?g) (stream ?bs),
       no_files(demo_path \<mapsto> File (file_bytes no_files demo_path @ concat ?g)))"
    using a13 h13 by (rule mp)
  have fb: "file_bytes no_files demo_path = []" by (simp add: file_bytes_def no_files_def)
  have m0: "mem ?s2 3 = 0" by (simp add: mem2)
  show ?thesis
    using d1 d2 d3 d3' d4 d5 d7 m0 d8 d8' d9 d10 d11 d11' d12 d13
    by (simp add: inp1 inp2 fb)
qed

text \<open>
  The counter at the lower end of its range: with \<open>0x80000000\<close> bytes declared it starts
  at \<open>- 2 ^ 31\<close>, the copy of three bytes wraps it round to a positive number, and the
  test behind the copy loop does not fire.
\<close>

lemma counter_wraps_at_lower_end:
  "bytesLeft (init_dstate plain_env (stream [1, 0]) 0x80000000) = - (2 ^ 31)
   \<and> bytesLeft (copy_run 3 1 (init_dstate plain_env (stream [1, 0]) 0x80000000)) = 2 ^ 31 - 3
   \<and> fst (bit_body 0 0 (init_dstate plain_env (stream [1, 0]) 0x80000000)) = Inr Continue"
proof -
  let ?st = "init_dstate plain_env (stream [1, 0]) 0x80000000"
  have b: "bytesLeft ?st = - (2 ^ 31)" by (simp add: init_dstate_def)
  have w: "int32 (- (2 ^ 31) - 3) = 2 ^ 31 - 3" by (simp add: int32_def)
  have c: "\<And>st. bytesLeft st = - (2 ^ 31) \<Longrightarrow> bytesLeft (copy_run 3 1 st) = 2 ^ 31 - 3"
    using copy_run_bytesLeft [of 3] w by simp
  have r: "mtf_read16 (inp ?st) = (Inr 1, skip 2 (inp ?st))"
    using mtf_read16_avail [of "inp ?st" 1 0]
    by (simp add: init_dstate_def stream_def peek_def le_word_def le_nat_def)
  have "bytesLeft (copy_run 3 1 (?st\<lparr>inp := skip 2 (inp ?st)\<rparr>)) = 2 ^ 31 - 3"
    by (rule c) (simp add: b)
  then have "fst (bit_body 0 0 ?st) = Inr Continue"
    by (simp add: bit_body_def r Let_def drop_bit_eq_div)
  with b c [OF b] show ?thesis by simp
qed

text \<open>
  Claim C4, as the code has it. A control word that is zero ends the handling of the
  current control byte: the bit loop stops with no error and nothing written, whatever
  the remaining counter is. The decoder then tests the counter, and when bytes are still
  outstanding it goes on with the next control byte. The source raises no error for a zero
  word met while the counter is positive.
\<close>

theorem zero_word_breaks_silently:
  fixes st :: dstate and c :: byte
  shows
    "(b < 8 \<and> \<not> bit c b \<and> peek 2 (inp st) = [0, 0] \<longrightarrow>
        bit_body c b st = (Inr Break, st\<lparr>inp := skip 2 (inp st)\<rparr>) \<and>
        bits_loop c b st = (None, st\<lparr>inp := skip 2 (inp st)\<rparr>))
   \<and> (bytesLeft st \<noteq> 0 \<and> peek 3 (inp st) = [c, 0, 0] \<and> \<not> bit c 0 \<longrightarrow>
        decode_loop st = decode_loop (st\<lparr>inp := skip 3 (inp st)\<rparr>))
   \<and> (bytesLeft st \<noteq> 0 \<and> peek 1 (inp st) = [c] \<and>
       bits_loop c 0 (st\<lparr>inp := skip 1 (inp st)\<rparr>) = (None, st') \<longrightarrow>
        decode_loop st = decode_loop st')"
proof (intro conjI impI; (elim conjE)?)
  assume a: "b < 8" "\<not> bit c b" "peek 2 (inp st) = [0, 0]"
  show "bit_body c b st = (Inr Break, st\<lparr>inp := skip 2 (inp st)\<rparr>)"
    using a by (simp add: bit_body_def flag_bit mtf_read16_avail le_word_def le_nat_def)
  show "bits_loop c b st = (None, st\<lparr>inp := skip 2 (inp st)\<rparr>)"
    using a by (rule bits_loop_zero_word)
next
  assume a: "bytesLeft st \<noteq> 0" "peek 3 (inp st) = [c, 0, 0]" "\<not> bit c 0"
  have p1: "peek 1 (inp st) = [c]"
    using arg_cong [OF a(2), of "take 1"] by (simp add: peek_def)
  have e: "peek (1 + 2) (inp st) = [c, 0, 0]" using a(2) by (simp add: eval_nat_numeral)
  have "peek 2 (skip 1 (inp st)) = drop 1 (peek (1 + 2) (inp st))" by (rule peek_skip)
  also have "\<dots> = [0, 0]" unfolding e by simp
  finally have p2: "peek 2 (inp (st\<lparr>inp := skip 1 (inp st)\<rparr>)) = [0, 0]" by simp
  have "bits_loop c 0 (st\<lparr>inp := skip 1 (inp st)\<rparr>) = (None, st\<lparr>inp := skip 3 (inp st)\<rparr>)"
    using bits_loop_zero_word [OF _ a(3) p2] by (simp add: numeral_3_eq_3)
  with decode_loop_step [OF a(1) p1] show "decode_loop st = decode_loop (st\<lparr>inp := skip 3 (inp st)\<rparr>)"
    by simp
next
  assume a: "bytesLeft st \<noteq> 0" "peek 1 (inp st) = [c]"
    "bits_loop c 0 (st\<lparr>inp := skip 1 (inp st)\<rparr>) = (None, st')"
  with decode_loop_step [OF a(1,2)] show "decode_loop st = decode_loop st'" by simp
qed


text \<open>
  A stream for one output byte that starts with a chunk whose first control word is zero:
  chunk byte \<open>0x00\<close>, the word \<open>0x0000\<close>, then a chunk with one literal and a closing
  zero word.
\<close>

definition padded_stream :: "byte list" where
  "padded_stream = [0x00, 0x00, 0x00, 0x01, 0x41, 0x00, 0x00]"

text \<open>The equations that evaluate the decoder on a concrete stream.\<close>

lemmas decoder_eval =
  int32_id decode_loop.simps bits_loop.simps bit_body_def mtf_read8_def mtf_read16_def
  fread_bytes_def stream_def le_word_def le_nat_def Let_def init_dstate_def plain_env_def
  skip_def mtf_decompress_write_file_def fwrite_def file_bytes_def no_files_def buffer_bytes_def

text \<open>
  Claim C4 as stated asks for an error when a zero word is read while the remaining
  counter is positive. On \<open>padded_stream\<close> with one byte declared, the first word is zero
  while the counter is 1; the bit loop breaks and the entry is decoded with success.
\<close>

theorem zero_word_mid_block_counterexample:
  "bytesLeft (init_dstate plain_env (skip 1 (stream padded_stream)) 1) = 1
   \<and> bit_body 0 0 (init_dstate plain_env (skip 1 (stream padded_stream)) 1) =
       (Inr Break, init_dstate plain_env (skip 3 (stream padded_stream)) 1)
   \<and> mtf_decompress_write_file plain_env (stream padded_stream) demo_path no_files 1 =
       (Ok (), skip 7 (stream padded_stream), no_files(demo_path \<mapsto> File [0x41]))"
  by (simp add: decoder_eval padded_stream_def upt_rec)

theorem zero_word_breaks_silently_witness:
  "bits_loop 0 0 (demo_state [0, 0, 0, 1] 1) =
     (None, (demo_state [0, 0, 0, 1] 1)\<lparr>inp := skip 2 (stream [0, 0, 0, 1])\<rparr>)
   \<and> decode_loop (demo_state [0, 0, 0, 1] 1) =
       decode_loop ((demo_state [0, 0, 0, 1] 1)\<lparr>inp := skip 3 (stream [0, 0, 0, 1])\<rparr>)"
proof -
  let ?s = "demo_state [0, 0, 0, 1] 1"
  let ?s' = "?s\<lparr>inp := skip 3 (inp ?s)\<rparr>"
  note t = zero_word_breaks_silently [where st = "?s" and c = 0 and b = 0 and st' = "?s'"]
  have i: "inp ?s = stream [0, 0, 0, 1]" by (simp add: demo_state_def)
  have h1: "(0::nat) < 8 \<and> \<not> bit (0::byte) (0::nat) \<and> peek 2 (inp ?s) = [0, 0]"
    by (simp add: demo_state_def stream_def peek_def)
  have h2: "bytesLeft ?s \<noteq> 0 \<and> peek 3 (inp ?s) = [0, 0, 0] \<and> \<not> bit (0::byte) (0::nat)"
    by (simp add: demo_state_def stream_def peek_def)
  have c1: "bits_loop 0 0 ?s = (None, ?s\<lparr>inp := skip 2 (inp ?s)\<rparr>)"
    using t [THEN conjunct1] h1 by (rule mp [THEN conjunct2])
  have c2: "decode_loop ?s = decode_loop ?s'"
    using t [THEN conjunct2, THEN conjunct1] h2 by (rule mp)
  have h3: "bytesLeft ?s \<noteq> 0 \<and> peek 1 (inp ?s) = [0] \<and>
      bits_loop 0 0 (?s\<lparr>inp := skip 1 (inp ?s)\<rparr>) = (None, ?s')"
    by (simp add: demo_state_def stream_def peek_def decoder_eval)
  have c3: "decode_loop ?s = decode_loop ?s'"
    using t [THEN conjunct2, THEN conjunct2] h3 by (rule mp)
  show ?thesis using c1 c2 c3 by (simp add: i)
qed

text \<open>
  Claim C1 asks that a decode path producing more bytes than \<open>decompressedSize\<close> fails
  with the size-mismatch error also when the overrun happens in the literal branch. The
  source tests \<^verbatim>\<open>bytesLeft < 0\<close> behind the copy loop of a back-reference only. With one
  byte declared and the stream \<open>03 41 42\<close>, the second literal is stored in cell 1, which
  is behind the one-byte buffer, the counter becomes \<open>-1\<close>, and the loop goes on; the
  entry fails later, on the read of a control word that is not there, with a read error.
\<close>

theorem literal_overrun_is_not_detected:
  "bit_body 0x03 1
     \<lparr>mem = (heap_init plain_env)(0 := 0x41), cur = 1, bytesLeft = 0,
      inp = skip 2 (stream [0x03, 0x41, 0x42])\<rparr> =
     (Inr Continue,
      \<lparr>mem = (heap_init plain_env)(0 := 0x41, 1 := 0x42), cur = 2, bytesLeft = - 1,
       inp = skip 3 (stream [0x03, 0x41, 0x42])\<rparr>)
   \<and> decode_loop (init_dstate plain_env (stream [0x03, 0x41, 0x42]) 1) =
       (Some Read16Failed,
        \<lparr>mem = (heap_init plain_env)(0 := 0x41, 1 := 0x42), cur = 2, bytesLeft = - 1,
         inp = skip 3 (stream [0x03, 0x41, 0x42])\<rparr>)
   \<and> mtf_decompress_write_file plain_env (stream [0x03, 0x41, 0x42]) demo_path no_files 1 =
       (Failed Read16Failed, skip 3 (stream [0x03, 0x41, 0x42]), no_files)
   \<and> kind_of Read16Failed = IoError"
  by (simp add: decoder_eval)

section \<open>The entry table\<close>

text \<open>
  \<^verbatim>\<open>mtf_file_entry_t\<close> and \<^verbatim>\<open>mtf_file_t\<close>. A pointer is \<open>None\<close> when it is \<^verbatim>\<open>NULL\<close>. The
  buffer of a filename holds the \<open>filenameLength\<close> bytes read from the archive; the
  terminator the source stores behind them is not part of the list.
\<close>

record mtf_file_entry =
  filename :: "byte list option"
  filenameLength :: uint32_t
  dataOffset :: uint32_t
  decompressedSize :: uint32_t

record mtf_file =
  osFileHandle :: "in_file option"
  fileEntries :: "mtf_file_entry list option"
  fileEntryCount :: uint32_t

text \<open>An element of the array as \<^verbatim>\<open>calloc\<close> returns it.\<close>

definition zero_entry :: mtf_file_entry where
  "zero_entry = \<lparr>filename = None, filenameLength = 0, dataOffset = 0, decompressedSize = 0\<rparr>"

text \<open>\<^verbatim>\<open>sizeof(mtf_file_entry_t)\<close> where pointers have 8 bytes.\<close>

definition entry_size :: nat where
  "entry_size = 24"

subsection \<open>Closing\<close>

text \<open>What a call hands back to the C library: the effects of \<^verbatim>\<open>fclose\<close> and \<^verbatim>\<open>free\<close>.\<close>

datatype released = Closed_stream | Freed_name "byte list" | Freed_entries

text \<open>\<^verbatim>\<open>free(fileEntries[e].filename)\<close> for each element; \<^verbatim>\<open>free(NULL)\<close> does nothing.\<close>

fun free_names :: "mtf_file_entry list \<Rightarrow> released list" where
  "free_names [] = []"
| "free_names (e # es) =
     (case filename e of None \<Rightarrow> free_names es | Some buf \<Rightarrow> Freed_name buf # free_names es)"

text \<open>
  The body of \<^verbatim>\<open>mtf_file_close(mtf)\<close> for a pointer that is not \<^verbatim>\<open>NULL\<close>. The loop frees
  the names of the first \<open>fileEntryCount\<close> elements of the array.
\<close>

definition close_struct :: "mtf_file \<Rightarrow> mtf_file \<times> released list" where
  "close_struct mtf =
     (let (m1, r1) =
            (case osFileHandle mtf of
               None \<Rightarrow> (mtf, [])
             | Some h \<Rightarrow> (mtf\<lparr>osFileHandle := None\<rparr>, [Closed_stream]));
          (m2, r2) =
            (case fileEntries m1 of
               None \<Rightarrow> (m1, [])
             | Some es \<Rightarrow>
                 (m1\<lparr>fileEntries := None, fileEntryCount := 0\<rparr>,
                  free_names (take (unat (fileEntryCount m1)) es) @ [Freed_entries]))
      in (m2, r1 @ r2))"

text \<open>\<^verbatim>\<open>mtf_file_close(mtf)\<close>; the argument is \<open>None\<close> for a \<^verbatim>\<open>NULL\<close> pointer.\<close>

definition mtf_file_close :: "mtf_file option \<Rightarrow> mtf_file option \<times> released list" where
  "mtf_file_close p =
     (case p of
        None \<Rightarrow> (None, [])
      | Some mtf \<Rightarrow> (case close_struct mtf of (m, r) \<Rightarrow> (Some m, r)))"

subsection \<open>Sorting by filename\<close>

text \<open>\<^verbatim>\<open>strcmp\<close>: the bytes are compared as \<^verbatim>\<open>unsigned char\<close>, up to the first difference.\<close>

fun strcmp :: "cstring \<Rightarrow> cstring \<Rightarrow> int" where
  "strcmp [] [] = 0"
| "strcmp [] (y # ys) = - int (unat y)"
| "strcmp (x # xs) [] = int (unat x)"
| "strcmp (x # xs) (y # ys) = (if x = y then strcmp xs ys else int (unat x) - int (unat y))"

text \<open>
  The name of an entry as a C string. Every element has its buffer when the array is
  sorted; for a \<^verbatim>\<open>NULL\<close> name the function gives the empty string.
\<close>

definition entry_name :: "mtf_file_entry \<Rightarrow> cstring" where
  "entry_name e = (case filename e of None \<Rightarrow> [] | Some buf \<Rightarrow> c_str buf)"

definition mtf_sort_by_filename :: "mtf_file_entry \<Rightarrow> mtf_file_entry \<Rightarrow> int" where
  "mtf_sort_by_filename a b = strcmp (entry_name a) (entry_name b)"

text \<open>
  \<^verbatim>\<open>qsort\<close> with a comparison function. The C standard fixes the result up to the order
  of elements that compare equal; the model is an insertion sort.
\<close>

fun insert_sorted :: "('a \<Rightarrow> 'a \<Rightarrow> int) \<Rightarrow> 'a \<Rightarrow> 'a list \<Rightarrow> 'a list" where
  "insert_sorted cmp x [] = [x]"
| "insert_sorted cmp x (y # ys) =
     (if cmp x y \<le> 0 then x # y # ys else y # insert_sorted cmp x ys)"

definition qsort :: "('a \<Rightarrow> 'a \<Rightarrow> int) \<Rightarrow> 'a list \<Rightarrow> 'a list" where
  "qsort cmp xs = foldr (insert_sorted cmp) xs []"

subsection \<open>Opening\<close>

text \<open>
  The body of the loop of \<^verbatim>\<open>mtf_file_open\<close> for the element \<open>entry\<close> of the array. The
  result of \<^verbatim>\<open>fread\<close> for the filename is not tested. Bytes of the buffer that a short
  read leaves unwritten hold what the heap held.

  The size of the buffer is \<^verbatim>\<open>filenameLength + 1\<close> in 32-bit unsigned arithmetic. For the
  length \<open>0xFFFFFFFF\<close> the sum is 0: a block that \<^verbatim>\<open>malloc(0)\<close> returns has no byte, and
  the terminator stored at \<^verbatim>\<open>filename[filenameLength]\<close>, like every byte that \<^verbatim>\<open>fread\<close>
  delivers, lands outside it. The stream and the entry of that result carry no information.
\<close>

definition read_entry ::
  "os_env \<Rightarrow> in_file \<Rightarrow> mtf_file_entry \<Rightarrow> unit outcome \<times> in_file \<times> mtf_file_entry" where
  "read_entry env f entry =
     (case mtf_read32 f of
        (Inl err, f1) \<Rightarrow>
          (Failed ReadNameLenFailed, f1,
           entry\<lparr>filenameLength := short_read32 f (filenameLength entry)\<rparr>)
      | (Inr len, f1) \<Rightarrow>
          if \<not> malloc_ok env (unat (len + 1))
          then (Failed MallocNameFailed, f1, entry\<lparr>filename := None, filenameLength := len\<rparr>)
          else if len + 1 = 0
          then (Overrun, f1, entry\<lparr>filename := Some [], filenameLength := len\<rparr>)
          else
            (case fread_bytes (unat len) f1 of (got, f2) \<Rightarrow>
               (let buf = got @ map (\<lambda>i. heap_init env (int i)) [length got..<unat len];
                    entry1 = entry\<lparr>filename := Some buf, filenameLength := len\<rparr>
                in case mtf_read32 f2 of
                     (Inl err, f3) \<Rightarrow>
                       (Failed ReadOffsetSizeFailed, f3,
                        entry1\<lparr>dataOffset := short_read32 f2 (dataOffset entry)\<rparr>)
                   | (Inr off, f3) \<Rightarrow>
                       (case mtf_read32 f3 of
                          (Inl err, f4) \<Rightarrow>
                            (Failed ReadOffsetSizeFailed, f4,
                             entry1\<lparr>dataOffset := off,
                                    decompressedSize :=
                                      short_read32 f3 (decompressedSize entry)\<rparr>)
                        | (Inr sz, f4) \<Rightarrow>
                            (Ok (), f4, entry1\<lparr>dataOffset := off, decompressedSize := sz\<rparr>)))))"

text \<open>The loop \<^verbatim>\<open>for (e = 0; e < fileEntryCount; ++e)\<close>, from the element \<open>e\<close> on.\<close>

function read_entries ::
  "os_env \<Rightarrow> nat \<Rightarrow> nat \<Rightarrow> in_file \<Rightarrow> mtf_file_entry list \<Rightarrow>
     unit outcome \<times> in_file \<times> mtf_file_entry list" where
  "read_entries env e n f es =
     (if e < n then
        (case read_entry env f (es ! e) of
           (Ok u, f', entry) \<Rightarrow> read_entries env (e + 1) n f' (es[e := entry])
         | (Failed err, f', entry) \<Rightarrow> (Failed err, f', es[e := entry])
         | (Overrun, f', entry) \<Rightarrow> (Overrun, f', es[e := entry])
         | (Aborted, f', entry) \<Rightarrow> (Aborted, f', es[e := entry]))
      else (Ok (), f, es))"
  by pat_completeness auto
termination
  by (relation "measure (\<lambda>(env, e, n, f, es). n - e)") auto

declare read_entries.simps [simp del]

text \<open>
  \<^verbatim>\<open>mtf_file_open(mtf, filename)\<close>. The structure is an output of the call: its three
  fields are assigned before anything is read. The result has the structure as the call
  leaves it and what the call released. The entry count is read into the field itself, so
  a short read of it leaves the bytes read in the field, which held 0.
\<close>

definition mtf_file_open :: "os_env \<Rightarrow> cstring \<Rightarrow> unit outcome \<times> mtf_file \<times> released list" where
  "mtf_file_open env name =
     (if name = []
      then (Aborted, \<lparr>osFileHandle = None, fileEntries = None, fileEntryCount = 0\<rparr>, [])
      else
        (let m0 = \<lparr>osFileHandle = fopen_rb env name, fileEntries = None, fileEntryCount = 0\<rparr> in
         case osFileHandle m0 of
           None \<Rightarrow> (Failed CantOpenInput, m0, [])
         | Some f \<Rightarrow>
             (case mtf_read32 f of
                (Inl err, f1) \<Rightarrow>
                  (case close_struct
                          (m0\<lparr>osFileHandle := Some f1, fileEntryCount := short_read32 f 0\<rparr>) of
                     (m, r) \<Rightarrow> (Failed ReadCountFailed, m, r))
              | (Inr n, f1) \<Rightarrow>
                  (let m1 = m0\<lparr>osFileHandle := Some f1, fileEntryCount := n\<rparr> in
                   if n = 0 then
                     (case close_struct m1 of (m, r) \<Rightarrow> (Failed NoFiles, m, r))
                   else if \<not> malloc_ok env (unat n * entry_size) then
                     (case close_struct m1 of (m, r) \<Rightarrow> (Failed MallocEntriesFailed, m, r))
                   else
                     (case read_entries env 0 (unat n) f1 (replicate (unat n) zero_entry) of
                        (Failed err, f2, es) \<Rightarrow>
                          (case close_struct
                                  (m1\<lparr>osFileHandle := Some f2, fileEntries := Some es\<rparr>) of
                             (m, r) \<Rightarrow> (Failed err, m, r))
                      | (Ok u, f2, es) \<Rightarrow>
                          (Ok (),
                           m1\<lparr>osFileHandle := Some f2,
                              fileEntries := Some (qsort mtf_sort_by_filename es)\<rparr>,
                           [])
                      | (Overrun, f2, es) \<Rightarrow>
                          (Overrun, m1\<lparr>osFileHandle := Some f2, fileEntries := Some es\<rparr>, [])
                      | (Aborted, f2, es) \<Rightarrow>
                          (Aborted, m1\<lparr>osFileHandle := Some f2, fileEntries := Some es\<rparr>, []))))))"

lemma close_struct_fields:
  "osFileHandle (fst (close_struct m)) = None"
  "fileEntries (fst (close_struct m)) = None"
  "fileEntryCount (fst (close_struct m)) = (if fileEntries m = None then fileEntryCount m else 0)"
  by (simp_all add: close_struct_def split: option.splits)

lemma close_struct_closed:
  "osFileHandle m = None \<Longrightarrow> fileEntries m = None \<Longrightarrow> close_struct m = (m, [])"
  by (simp add: close_struct_def)

lemma close_struct_idem: "close_struct (fst (close_struct m)) = (fst (close_struct m), [])"
  by (rule close_struct_closed) (simp_all add: close_struct_fields)

lemma mtf_file_open_failed_closed:
  assumes "mtf_file_open env name = (Failed e, m, r)"
  shows "osFileHandle m = None \<and> fileEntries m = None"
  using assms close_struct_fields(1,2)
  by (auto simp: mtf_file_open_def Let_def
      split: if_splits option.splits prod.splits sum.splits outcome.splits
      dest!: arg_cong [where f = fst])


text \<open>
  Claim C10, as the code has it. \<^verbatim>\<open>mtf_file_close\<close> does nothing for a \<^verbatim>\<open>NULL\<close> pointer.
  After a call the stream handle and the array pointer are \<^verbatim>\<open>NULL\<close>; the count is 0 when
  the array pointer was set on entry and is left as it was when the array pointer was
  \<^verbatim>\<open>NULL\<close>. A second call on the same structure changes nothing and releases nothing,
  and so does a call after \<^verbatim>\<open>mtf_file_open\<close> has failed.
\<close>

theorem mtf_file_close_idempotent:
  "mtf_file_close None = (None, [])
   \<and> osFileHandle (fst (close_struct m)) = None
   \<and> fileEntries (fst (close_struct m)) = None
   \<and> (fileEntries m \<noteq> None \<longrightarrow> fileEntryCount (fst (close_struct m)) = 0)
   \<and> (fileEntries m = None \<longrightarrow> fileEntryCount (fst (close_struct m)) = fileEntryCount m)
   \<and> mtf_file_close (Some m) = (Some (fst (close_struct m)), snd (close_struct m))
   \<and> mtf_file_close (fst (mtf_file_close p)) = (fst (mtf_file_close p), [])
   \<and> (mtf_file_open env name = (Failed e, m', r) \<longrightarrow>
        mtf_file_close (Some m') = (Some m', []))"
proof (intro conjI impI)
  show "mtf_file_close None = (None, [])" by (simp add: mtf_file_close_def)
  show "osFileHandle (fst (close_struct m)) = None" by (rule close_struct_fields)
  show "fileEntries (fst (close_struct m)) = None" by (rule close_struct_fields)
  show "fileEntries m \<noteq> None \<Longrightarrow> fileEntryCount (fst (close_struct m)) = 0"
    by (auto simp: close_struct_fields)
  show "fileEntries m = None \<Longrightarrow> fileEntryCount (fst (close_struct m)) = fileEntryCount m"
    by (simp add: close_struct_fields)
  show "mtf_file_close (Some m) = (Some (fst (close_struct m)), snd (close_struct m))"
    by (simp add: mtf_file_close_def split: prod.splits)
  show "mtf_file_close (fst (mtf_file_close p)) = (fst (mtf_file_close p), [])"
  proof (cases p)
    case None
    then show ?thesis by (simp add: mtf_file_close_def)
  next
    case (Some q)
    obtain m1 r1 where c: "close_struct q = (m1, r1)" by (cases "close_struct q")
    with close_struct_idem [of q] Some show ?thesis
      by (simp add: mtf_file_close_def)
  qed
  show "mtf_file_open env name = (Failed e, m', r) \<Longrightarrow> mtf_file_close (Some m') = (Some m', [])"
    using mtf_file_open_failed_closed [of env name e m' r]
    by (simp add: mtf_file_close_def close_struct_closed)
qed

text \<open>An environment with no memory left, and an archive that declares five entries.\<close>

definition no_memory_env :: os_env where
  "no_memory_env =
     \<lparr>fopen_rb = (\<lambda>name. Some (stream [5, 0, 0, 0])), malloc_ok = (\<lambda>n. False),
      heap_init = (\<lambda>a. 0), stack_init = replicate 12 0, fwrite_ok = (\<lambda>p n. True)\<rparr>"

text \<open>
  Claim C10 as stated has the count 0 after every call. When the array pointer is \<^verbatim>\<open>NULL\<close>
  on entry the count is not touched: \<^verbatim>\<open>mtf_file_open\<close> calls \<^verbatim>\<open>mtf_file_close\<close> in this state
  when \<^verbatim>\<open>calloc\<close> fails, and returns with the count it has read.
\<close>

theorem mtf_file_close_count_counterexample:
  "close_struct \<lparr>osFileHandle = None, fileEntries = None, fileEntryCount = 5\<rparr> =
     (\<lparr>osFileHandle = None, fileEntries = None, fileEntryCount = 5\<rparr>, [])
   \<and> mtf_file_open no_memory_env demo_path =
       (Failed MallocEntriesFailed,
        \<lparr>osFileHandle = None, fileEntries = None, fileEntryCount = 5\<rparr>, [Closed_stream])"
  by (simp add: close_struct_def mtf_file_open_def no_memory_env_def demo_path_def Let_def
      mtf_read32_def fread_bytes_def stream_def le_word_def le_nat_def)

text \<open>An open archive with one entry.\<close>

definition demo_open_file :: mtf_file where
  "demo_open_file =
     \<lparr>osFileHandle = Some (stream [1, 0, 0, 0]),
      fileEntries = Some [\<lparr>filename = Some [0x61], filenameLength = 1, dataOffset = 17,
                           decompressedSize = 3\<rparr>],
      fileEntryCount = 1\<rparr>"

theorem mtf_file_close_idempotent_witness:
  "close_struct demo_open_file =
     (\<lparr>osFileHandle = None, fileEntries = None, fileEntryCount = 0\<rparr>,
      [Closed_stream, Freed_name [0x61], Freed_entries])
   \<and> fileEntryCount (fst (close_struct demo_open_file)) = 0
   \<and> fileEntryCount (fst (close_struct (fst (close_struct demo_open_file)))) = 0
   \<and> mtf_file_close (fst (mtf_file_close (Some demo_open_file))) =
       (Some \<lparr>osFileHandle = None, fileEntries = None, fileEntryCount = 0\<rparr>, [])
   \<and> mtf_file_open no_memory_env demo_path =
       (Failed MallocEntriesFailed,
        \<lparr>osFileHandle = None, fileEntries = None, fileEntryCount = 5\<rparr>, [Closed_stream])
   \<and> mtf_file_close (Some \<lparr>osFileHandle = None, fileEntries = None, fileEntryCount = 5\<rparr>) =
       (Some \<lparr>osFileHandle = None, fileEntries = None, fileEntryCount = 5\<rparr>, [])"
proof -
  let ?closed = "\<lparr>osFileHandle = None, fileEntries = None, fileEntryCount = 0 :: uint32_t\<rparr>"
  let ?m5 = "\<lparr>osFileHandle = None, fileEntries = None, fileEntryCount = 5 :: uint32_t\<rparr>"
  have c: "close_struct demo_open_file =
      (?closed, [Closed_stream, Freed_name [0x61], Freed_entries])"
    by (simp add: close_struct_def demo_open_file_def)
  have o: "mtf_file_open no_memory_env demo_path = (Failed MallocEntriesFailed, ?m5, [Closed_stream])"
    by (simp add: close_struct_def mtf_file_open_def no_memory_env_def demo_path_def Let_def
        mtf_read32_def fread_bytes_def stream_def le_word_def le_nat_def)
  note t = mtf_file_close_idempotent [where m = demo_open_file and p = "Some demo_open_file"
      and env = no_memory_env and name = demo_path and e = MallocEntriesFailed and m' = "?m5"
      and r = "[Closed_stream]"]
  have h4: "fileEntries demo_open_file \<noteq> None" by (simp add: demo_open_file_def)
  have c4: "fileEntryCount (fst (close_struct demo_open_file)) = 0"
    using t [THEN conjunct2, THEN conjunct2, THEN conjunct2, THEN conjunct1] h4 by (rule mp)
  have h5: "fileEntries (fst (close_struct demo_open_file)) = None" by (simp add: c)
  have c5: "fileEntryCount (fst (close_struct (fst (close_struct demo_open_file)))) =
      fileEntryCount (fst (close_struct demo_open_file))"
    using mtf_file_close_idempotent [where m = "fst (close_struct demo_open_file)",
        THEN conjunct2, THEN conjunct2, THEN conjunct2, THEN conjunct2, THEN conjunct1] h5
    by (rule mp)
  have c7: "mtf_file_close (fst (mtf_file_close (Some demo_open_file))) =
      (fst (mtf_file_close (Some demo_open_file)), [])"
    using t [THEN conjunct2, THEN conjunct2, THEN conjunct2, THEN conjunct2, THEN conjunct2,
        THEN conjunct2, THEN conjunct1] .
  have c8: "mtf_file_close (Some ?m5) = (Some ?m5, [])"
    using t [THEN conjunct2, THEN conjunct2, THEN conjunct2, THEN conjunct2, THEN conjunct2,
        THEN conjunct2, THEN conjunct2] o by (rule mp)
  have f: "fst (mtf_file_close (Some demo_open_file)) = Some ?closed"
    by (simp add: mtf_file_close_def c)
  show ?thesis using c o c4 c5 c7 c8 f by simp
qed

lemma strcmp_le:
  "0 \<notin> set a \<Longrightarrow> 0 \<notin> set b \<Longrightarrow> (strcmp a b \<le> 0) = (a \<le> b)"
proof (induction a b rule: strcmp.induct)
  case (3 x xs)
  then have "x \<noteq> 0" by auto
  then show ?case by (simp add: uint_0_iff)
next
  case (4 x xs y ys)
  then show ?case
    by (auto simp: word_less_def word_le_def word_uint_eq_iff)
qed simp_all

lemma strcmp_eq:
  "0 \<notin> set a \<Longrightarrow> 0 \<notin> set b \<Longrightarrow> (strcmp a b = 0) = (a = b)"
proof (induction a b rule: strcmp.induct)
  case (2 y ys)
  then have "y \<noteq> 0" by auto
  then show ?case by (simp add: uint_0_iff)
next
  case (3 x xs)
  then have "x \<noteq> 0" by auto
  then show ?case by (simp add: uint_0_iff)
next
  case (4 x xs y ys)
  then show ?case by (auto simp: word_uint_eq_iff)
qed simp_all

lemma c_str_no_nul: "0 \<notin> set (c_str buf)"
  by (auto simp: c_str_def dest: set_takeWhileD)

lemma entry_name_no_nul: "0 \<notin> set (entry_name e)"
  by (simp add: entry_name_def c_str_no_nul split: option.splits)

lemma sort_cmp_le: "(mtf_sort_by_filename a b \<le> 0) = (entry_name a \<le> entry_name b)"
  by (simp add: mtf_sort_by_filename_def strcmp_le entry_name_no_nul)

lemma insert_sorted_insort:
  "insert_sorted mtf_sort_by_filename x ys = insort_key entry_name x ys"
  by (induction ys) (simp_all add: sort_cmp_le)

lemma qsort_sort_key: "qsort mtf_sort_by_filename es = sort_key entry_name es"
  by (induction es) (simp_all add: qsort_def insert_sorted_insort)

lemma filter_eq_singleton:
  "distinct xs \<Longrightarrow> k \<in> set xs \<Longrightarrow> filter (\<lambda>x. k = x) xs = [k]"
  by (induction xs) (auto simp: filter_empty_conv)

lemma qsort_order_independent:
  assumes "mset es = mset es'" "distinct (map entry_name es)"
  shows "qsort mtf_sort_by_filename es = qsort mtf_sort_by_filename es'"
proof -
  have inj: "inj_on entry_name (set es)" and d: "distinct es"
    using assms(2) by (simp_all add: distinct_map)
  have d': "distinct es'" using d assms(1) by (metis mset_eq_imp_distinct_iff)
  have s: "set es' = set es" using assms(1) by (metis mset_eq_setD)
  have "sort_key entry_name es = sort_key entry_name es'"
  proof (rule properties_for_sort_key)
    show "mset (sort_key entry_name es') = mset es" using assms(1) by simp
    show "sorted (map entry_name (sort_key entry_name es'))" by simp
    fix k assume "k \<in> set (sort_key entry_name es')"
    then have k: "k \<in> set es" using s by simp
    have e: "\<And>x. x \<in> set es \<Longrightarrow> (entry_name k = entry_name x) = (k = x)"
      using inj k by (auto dest: inj_onD)
    have "filter (\<lambda>x. entry_name k = entry_name x) (sort_key entry_name es') =
        filter (\<lambda>x. k = x) (sort_key entry_name es')"
      by (rule filter_cong) (use e s in auto)
    moreover have "filter (\<lambda>x. entry_name k = entry_name x) es = filter (\<lambda>x. k = x) es"
      by (rule filter_cong) (use e in auto)
    moreover have "filter (\<lambda>x. k = x) (sort_key entry_name es') = [k]"
      using d' k s by (intro filter_eq_singleton) simp_all
    moreover have "filter (\<lambda>x. k = x) es = [k]"
      using d k by (rule filter_eq_singleton)
    ultimately show "filter (\<lambda>x. entry_name k = entry_name x) (sort_key entry_name es') =
        filter (\<lambda>x. entry_name k = entry_name x) es" by simp
  qed
  then show ?thesis by (simp add: qsort_sort_key)
qed

lemma mtf_read32_Inr_iff:
  "mtf_read32 f = (Inr w, f1) \<longleftrightarrow>
     length (peek 4 f) = 4 \<and> w = le_word (peek 4 f) \<and> f1 = skip 4 f"
  by (auto simp: mtf_read32_def fread_bytes_def peek_def skip_def Let_def)

lemma mtf_read32_Inl_iff:
  "(\<exists>f1. mtf_read32 f = (Inl e, f1)) \<longleftrightarrow> length (peek 4 f) < 4 \<and> e = Read32Failed"
  by (auto simp: mtf_read32_def fread_bytes_def peek_def Let_def)

lemma read_entries_length:
  "read_entries env e n f es = (r, f', es') \<Longrightarrow> length es' = length es"
proof (induction env e n f es arbitrary: r f' es' rule: read_entries.induct)
  case (1 env e n f es)
  show ?case
  proof (cases "e < n")
    case False
    with "1.prems" show ?thesis by (simp add: read_entries.simps [of env e n f es])
  next
    case True
    obtain r1 f1 x where re: "read_entry env f (es ! e) = (r1, f1, x)"
      by (cases "read_entry env f (es ! e)")
    show ?thesis
    proof (cases r1)
      case (Ok u)
      with True re "1.prems" have "read_entries env (e + 1) n f1 (es[e := x]) = (r, f', es')"
        by (simp add: read_entries.simps [of env e n f es])
      from "1.IH" [OF True re [symmetric] Ok refl this] show ?thesis by simp
    qed (use True re "1.prems" in \<open>auto simp: read_entries.simps [of env e n f es]\<close>)
  qed
qed

subsection \<open>The layout of the table\<close>

text \<open>
  The bytes of a table, as section 6 of the specification lays them out: the entry count,
  then for each entry the length of the name, the name, the data offset and the size, all
  numbers as four bytes with the least significant first. An entry of a table has a name
  of \<open>filenameLength\<close> bytes, and the length is below \<open>0xFFFFFFFF\<close>, so that the buffer
  of the name with its terminator has a size.
\<close>

definition name_buffer :: "mtf_file_entry \<Rightarrow> byte list" where
  "name_buffer e = (case filename e of None \<Rightarrow> [] | Some buf \<Rightarrow> buf)"

definition table_entry_ok :: "mtf_file_entry \<Rightarrow> bool" where
  "table_entry_ok e =
     (case filename e of
        None \<Rightarrow> False
      | Some buf \<Rightarrow> length buf = unat (filenameLength e) \<and> filenameLength e + 1 \<noteq> 0)"

definition encode_entry :: "mtf_file_entry \<Rightarrow> byte list" where
  "encode_entry e =
     le32 (filenameLength e) @ name_buffer e @ le32 (dataOffset e) @ le32 (decompressedSize e)"

definition encode_table :: "mtf_file_entry list \<Rightarrow> byte list" where
  "encode_table es = le32 (of_nat (length es)) @ concat (map encode_entry es)"

lemma length_le_bytes [simp]: "length (le_bytes k n) = k"
  by (induction k arbitrary: n) simp_all

lemma length_le32 [simp]: "length (le32 w) = 4"
  by (simp add: le32_def)

lemma le_nat_Cons: "le_nat (b # bs) = unat b + 256 * le_nat bs"
  by (simp add: le_nat_def)

lemma le_nat_le_bytes: "le_nat (le_bytes k n) = n mod 256 ^ k"
proof (induction k arbitrary: n)
  case 0
  then show ?case by (simp add: le_nat_def)
next
  case (Suc k)
  have "unat (of_nat (n mod 256) :: byte) = n mod 256"
    by (simp add: unat_of_nat)
  then show ?case
    by (simp add: le_nat_Cons Suc.IH mod_mult2_eq)
qed

lemma le_word_le32: "le_word (le32 w) = (w :: uint32_t)"
proof -
  have "unat w < 2 ^ 32" using unsigned_less [of w] by simp
  then have "unat w mod 256 ^ 4 = unat w" by simp
  then show ?thesis by (simp add: le_word_def le32_def le_nat_le_bytes)
qed


lemma peek_append_split:
  assumes "peek (length xs + n) f = xs @ ys"
  shows "peek (length xs) f = xs" and "peek n (skip (length xs) f) = ys"
proof -
  have "peek (length xs) f = take (length xs) (peek (length xs + n) f)"
    by (simp add: peek_def min_def)
  then show "peek (length xs) f = xs" by (simp add: assms)
  have "peek n (skip (length xs) f) = drop (length xs) (peek (length xs + n) f)"
    by (rule peek_skip)
  then show "peek n (skip (length xs) f) = ys" by (simp add: assms)
qed

lemma length_encode_entry:
  "table_entry_ok x \<Longrightarrow> length (encode_entry x) = 12 + unat (filenameLength x)"
  by (auto simp: encode_entry_def table_entry_ok_def name_buffer_def split: option.splits)

lemma read_entry_encoded:
  assumes ok: "table_entry_ok x"
    and pk: "peek (length (encode_entry x)) f = encode_entry x"
    and mem: "malloc_ok env (unat (filenameLength x + 1))"
  shows "read_entry env f zero_entry = (Ok (), skip (length (encode_entry x)) f, x)"
  supply skip_skip [simp del]
proof -
  obtain buf where buf: "filename x = Some buf" "length buf = unat (filenameLength x)"
    and nov: "filenameLength x + 1 \<noteq> 0"
    using ok by (auto simp: table_entry_ok_def split: option.splits)
  let ?L = "filenameLength x"
  let ?f1 = "skip 4 f"
  let ?f2 = "skip (unat ?L) ?f1"
  let ?f3 = "skip 4 ?f2"
  have enc: "encode_entry x = le32 ?L @ buf @ le32 (dataOffset x) @ le32 (decompressedSize x)"
    by (simp add: encode_entry_def name_buffer_def buf)
  have "peek (length (le32 ?L) + (unat ?L + 8)) f = le32 ?L @ (buf @ le32 (dataOffset x) @ le32 (decompressedSize x))"
    using pk by (simp add: enc buf add.commute add.left_commute)
  from peek_append_split [OF this]
  have p1: "peek 4 f = le32 ?L"
    and r1: "peek (unat ?L + 8) ?f1 = buf @ le32 (dataOffset x) @ le32 (decompressedSize x)"
    by simp_all
  have "peek (length buf + 8) ?f1 = buf @ (le32 (dataOffset x) @ le32 (decompressedSize x))"
    using r1 by (simp add: buf)
  from peek_append_split [OF this]
  have p2: "peek (unat ?L) ?f1 = buf"
    and r2: "peek 8 ?f2 = le32 (dataOffset x) @ le32 (decompressedSize x)"
    by (simp_all add: buf)
  have "peek (length (le32 (dataOffset x)) + 4) ?f2 = le32 (dataOffset x) @ le32 (decompressedSize x)"
    using r2 by simp
  from peek_append_split [OF this]
  have p3: "peek 4 ?f2 = le32 (dataOffset x)" and p4: "peek 4 ?f3 = le32 (decompressedSize x)"
    by simp_all
  have a1: "mtf_read32 f = (Inr ?L, ?f1)"
    using mtf_read32_avail [of f] by (simp add: p1 le_word_le32)
  have a2: "fread_bytes (unat ?L) ?f1 = (buf, ?f2)"
    using fread_bytes_avail [of "unat ?L" ?f1] by (simp add: p2 buf)
  have a3: "mtf_read32 ?f2 = (Inr (dataOffset x), ?f3)"
    using mtf_read32_avail [of ?f2] by (simp add: p3 le_word_le32)
  have a4: "mtf_read32 ?f3 = (Inr (decompressedSize x), skip 4 ?f3)"
    using mtf_read32_avail [of ?f3] by (simp add: p4 le_word_le32)
  have x: "zero_entry\<lparr>filename := Some buf, filenameLength := ?L, dataOffset := dataOffset x,
      decompressedSize := decompressedSize x\<rparr> = x"
    by (simp add: zero_entry_def buf(1) [symmetric])
  have sk: "skip 4 ?f3 = skip (length (encode_entry x)) f"
    by (simp add: length_encode_entry [OF ok] skip_def add.commute add.left_commute)
  show ?thesis
    unfolding read_entry_def a1 using mem nov
    by (simp add: a2 a3 a4 buf x sk)
qed


lemma skip_zero [simp]: "skip 0 f = f"
  by (simp add: skip_def)

lemma read_entries_encoded:
  assumes "list_all table_entry_ok rest"
    and "peek (length (concat (map encode_entry rest))) f = concat (map encode_entry rest)"
    and "list_all (\<lambda>x. malloc_ok env (unat (filenameLength x + 1))) rest"
    and "length done' = e" and "n = e + length rest"
  shows "read_entries env e n f (done' @ replicate (length rest) zero_entry) =
           (Ok (), skip (length (concat (map encode_entry rest))) f, done' @ rest)"
  using assms
proof (induction rest arbitrary: e f done')
  case Nil
  then show ?case by (simp add: read_entries.simps [of env _ _ f done'])
next
  case (Cons x rest)
  let ?arr = "done' @ replicate (length (x # rest)) zero_entry"
  let ?f' = "skip (length (encode_entry x)) f"
  have lt: "e < n" using Cons.prems(5) by simp
  have nth: "?arr ! e = zero_entry" using Cons.prems(4) by (simp add: nth_append)
  have "peek (length (encode_entry x) + length (concat (map encode_entry rest))) f =
      encode_entry x @ concat (map encode_entry rest)"
    using Cons.prems(2) by simp
  from peek_append_split [OF this]
  have p1: "peek (length (encode_entry x)) f = encode_entry x"
    and p2: "peek (length (concat (map encode_entry rest))) ?f' = concat (map encode_entry rest)"
    by simp_all
  have re: "read_entry env f zero_entry = (Ok (), ?f', x)"
    using Cons.prems(1,3) p1 by (intro read_entry_encoded) simp_all
  have upd: "?arr[e := x] = (done' @ [x]) @ replicate (length rest) zero_entry"
    using Cons.prems(4) by (simp add: list_update_append)
  have "read_entries env (e + 1) n ?f' ((done' @ [x]) @ replicate (length rest) zero_entry) =
      (Ok (), skip (length (concat (map encode_entry rest))) ?f', (done' @ [x]) @ rest)"
    using Cons.prems by (intro Cons.IH p2) simp_all
  then show ?case
    using lt nth re upd
    by (subst read_entries.simps) (simp add: add.commute)
qed

lemma mtf_file_open_encoded:
  assumes "es \<noteq> []" "length es < 2 ^ 32" "list_all table_entry_ok es"
    and "malloc_ok env (length es * entry_size)"
    and "list_all (\<lambda>x. malloc_ok env (unat (filenameLength x + 1))) es"
    and "name \<noteq> []" "fopen_rb env name = Some f"
    and "peek (length (encode_table es)) f = encode_table es"
  shows "mtf_file_open env name =
           (Ok (),
            \<lparr>osFileHandle = Some (skip (length (encode_table es)) f),
             fileEntries = Some (qsort mtf_sort_by_filename es),
             fileEntryCount = of_nat (length es)\<rparr>, [])"
proof -
  let ?n = "of_nat (length es) :: uint32_t"
  let ?body = "concat (map encode_entry es)"
  have un: "unat ?n = length es" using assms(2) by (simp add: unat_of_nat)
  have nz: "?n \<noteq> 0" using assms(1) un by (metis length_0_conv unat_0)
  have "peek (length (le32 ?n) + length ?body) f = le32 ?n @ ?body"
    using assms(8) by (simp add: encode_table_def)
  from peek_append_split [OF this]
  have p1: "peek 4 f = le32 ?n" and p2: "peek (length ?body) (skip 4 f) = ?body"
    by simp_all
  have a1: "mtf_read32 f = (Inr ?n, skip 4 f)"
    using mtf_read32_avail [of f] by (simp add: p1 le_word_le32)
  have "read_entries env 0 (length es) (skip 4 f) ([] @ replicate (length es) zero_entry) =
      (Ok (), skip (length ?body) (skip 4 f), [] @ es)"
    using assms(3,5) p2 by (intro read_entries_encoded) simp_all
  then have a2: "read_entries env 0 (length es) (skip 4 f) (replicate (length es) zero_entry) =
      (Ok (), skip (length (encode_table es)) f, es)"
    by (simp add: encode_table_def)
  show ?thesis
    using assms(4,6,7) nz
    by (simp add: mtf_file_open_def Let_def a1 un a2)
qed

lemma mtf_file_open_OkD:
  assumes "mtf_file_open env name = (Ok (), m, r)"
  shows "\<exists>f n f2 es. name \<noteq> [] \<and> fopen_rb env name = Some f \<and> mtf_read32 f = (Inr n, skip 4 f) \<and>
           n \<noteq> 0 \<and> malloc_ok env (unat n * entry_size) \<and>
           read_entries env 0 (unat n) (skip 4 f) (replicate (unat n) zero_entry) = (Ok (), f2, es) \<and>
           m = \<lparr>osFileHandle = Some f2, fileEntries = Some (qsort mtf_sort_by_filename es),
                 fileEntryCount = n\<rparr> \<and> r = []"
proof -
  from assms have ne: "name \<noteq> []" by (auto simp: mtf_file_open_def split: if_splits)
  from assms ne obtain f where f: "fopen_rb env name = Some f"
    by (cases "fopen_rb env name") (auto simp: mtf_file_open_def Let_def)
  obtain x f1 where r32: "mtf_read32 f = (x, f1)" by (cases "mtf_read32 f")
  from assms ne f r32 obtain n where x: "x = Inr n"
    by (cases x) (auto simp: mtf_file_open_def Let_def split: prod.splits)
  from r32 x have f1: "f1 = skip 4 f" by (simp add: mtf_read32_Inr_iff)
  from assms ne f r32 x have nz: "n \<noteq> 0" and mo: "malloc_ok env (unat n * entry_size)"
    by (auto simp: mtf_file_open_def Let_def split: prod.splits if_splits)
  obtain e f2 es where re:
    "read_entries env 0 (unat n) f1 (replicate (unat n) zero_entry) = (e, f2, es)"
    by (cases "read_entries env 0 (unat n) f1 (replicate (unat n) zero_entry)")
  from assms ne f r32 x nz mo re have e: "e = Ok ()"
    by (cases e) (auto simp: mtf_file_open_def Let_def split: prod.splits)
  from assms ne f r32 x nz mo re e
  have "m = \<lparr>osFileHandle = Some f2, fileEntries = Some (qsort mtf_sort_by_filename es),
      fileEntryCount = n\<rparr> \<and> r = []"
    by (auto simp: mtf_file_open_def Let_def)
  with ne f r32 x f1 nz mo re e show ?thesis by auto
qed

lemma sorted_wrt_cmp:
  "sorted_wrt (\<lambda>a b. mtf_sort_by_filename a b \<le> 0) es = sorted (map entry_name es)"
  by (simp add: sort_cmp_le sorted_map)

lemma mtf_file_open_sorted:
  assumes "mtf_file_open env name = (Ok (), m, r)"
  shows "\<exists>es. fileEntries m = Some es \<and> length es = unat (fileEntryCount m) \<and>
           0 < unat (fileEntryCount m) \<and>
           (\<forall>f. fopen_rb env name = Some f \<longrightarrow> fileEntryCount m = le_word (peek 4 f)) \<and>
           sorted_wrt (\<lambda>a b. mtf_sort_by_filename a b \<le> 0) es \<and>
           sorted (map entry_name es)"
proof -
  from mtf_file_open_OkD [OF assms] obtain f n f2 es where
    f: "fopen_rb env name = Some f" and r: "mtf_read32 f = (Inr n, skip 4 f)" and nz: "n \<noteq> 0"
    and re: "read_entries env 0 (unat n) (skip 4 f) (replicate (unat n) zero_entry) = (Ok (), f2, es)"
    and m: "m = \<lparr>osFileHandle = Some f2, fileEntries = Some (qsort mtf_sort_by_filename es),
                 fileEntryCount = n\<rparr>"
    by blast
  have len: "length es = unat n" using read_entries_length [OF re] by simp
  have n: "n = le_word (peek 4 f)" using r by (simp add: mtf_read32_Inr_iff)
  have pos: "0 < unat n" using nz by (simp add: unat_gt_0)
  show ?thesis
    using f len n pos by (simp add: m sorted_wrt_cmp qsort_sort_key)
qed


text \<open>
  Claim C7. A load that succeeds yields exactly as many descriptors as the count at the
  head of the archive declares, a number above zero, ordered by \<^verbatim>\<open>strcmp\<close> on the names,
  which is the lexicographic order of the bytes compared as unsigned numbers. A table of
  \<open>N\<close> entries laid out as section 6 of the specification has it loads to the sorted list
  of its \<open>N\<close> entries, and two tables of the same entries in different orders load to the
  same index when no two entries have the same name.
\<close>

theorem load_yields_sorted_index:
  "(mtf_file_open env name = (Ok (), m, r) \<longrightarrow>
      (\<exists>es. fileEntries m = Some es \<and> length es = unat (fileEntryCount m) \<and>
            0 < unat (fileEntryCount m) \<and>
            (\<forall>f. fopen_rb env name = Some f \<longrightarrow> fileEntryCount m = le_word (peek 4 f)) \<and>
            sorted_wrt (\<lambda>a b. mtf_sort_by_filename a b \<le> 0) es \<and>
            sorted (map entry_name es)))
   \<and> (mtf_sort_by_filename a b \<le> 0) = (entry_name a \<le> entry_name b)
   \<and> (0 \<notin> set s \<and> 0 \<notin> set t \<longrightarrow>
        (strcmp s t \<le> 0) = (s \<le> t) \<and> (strcmp s t = 0) = (s = t) \<and>
        (strcmp s t \<le> 0 \<or> strcmp t s \<le> 0))
   \<and> ((x # xs \<le> y # ys) = (unat x < unat y \<or> x = y \<and> xs \<le> ys)) \<and> [] \<le> ys \<and> \<not> x # xs \<le> []
   \<and> (es \<noteq> [] \<and> length es < 2 ^ 32 \<and> list_all table_entry_ok es \<and>
        malloc_ok env (length es * entry_size) \<and>
        list_all (\<lambda>x. malloc_ok env (unat (filenameLength x + 1))) es \<and>
        name \<noteq> [] \<and> fopen_rb env name = Some f \<and>
        peek (length (encode_table es)) f = encode_table es \<longrightarrow>
        mtf_file_open env name =
          (Ok (),
           \<lparr>osFileHandle = Some (skip (length (encode_table es)) f),
            fileEntries = Some (qsort mtf_sort_by_filename es),
            fileEntryCount = of_nat (length es)\<rparr>, []) \<and>
        length (qsort mtf_sort_by_filename es) = length es \<and>
        mset (qsort mtf_sort_by_filename es) = mset es \<and>
        sorted (map entry_name (qsort mtf_sort_by_filename es)))
   \<and> (mset es = mset es' \<and> distinct (map entry_name es) \<longrightarrow>
        qsort mtf_sort_by_filename es = qsort mtf_sort_by_filename es')"
proof (intro conjI impI; (elim conjE)?)
  show "mtf_file_open env name = (Ok (), m, r) \<Longrightarrow>
      \<exists>es. fileEntries m = Some es \<and> length es = unat (fileEntryCount m) \<and>
            0 < unat (fileEntryCount m) \<and>
            (\<forall>f. fopen_rb env name = Some f \<longrightarrow> fileEntryCount m = le_word (peek 4 f)) \<and>
            sorted_wrt (\<lambda>a b. mtf_sort_by_filename a b \<le> 0) es \<and>
            sorted (map entry_name es)"
    by (rule mtf_file_open_sorted)
  show "(mtf_sort_by_filename a b \<le> 0) = (entry_name a \<le> entry_name b)"
    by (rule sort_cmp_le)
  show "0 \<notin> set s \<Longrightarrow> 0 \<notin> set t \<Longrightarrow> (strcmp s t \<le> 0) = (s \<le> t)"
    by (rule strcmp_le)
  show "0 \<notin> set s \<Longrightarrow> 0 \<notin> set t \<Longrightarrow> (strcmp s t = 0) = (s = t)"
    by (rule strcmp_eq)
  show "0 \<notin> set s \<Longrightarrow> 0 \<notin> set t \<Longrightarrow> strcmp s t \<le> 0 \<or> strcmp t s \<le> 0"
    using strcmp_le [of s t] strcmp_le [of t s] by (simp add: linear)
  show "(x # xs \<le> y # ys) = (unat x < unat y \<or> x = y \<and> xs \<le> ys)"
    by (auto simp: word_less_nat_alt)
  show "[] \<le> ys" by simp
  show "\<not> x # xs \<le> []" by simp
  show "es \<noteq> [] \<Longrightarrow> length es < 2 ^ 32 \<Longrightarrow> list_all table_entry_ok es \<Longrightarrow>
        malloc_ok env (length es * entry_size) \<Longrightarrow>
        list_all (\<lambda>x. malloc_ok env (unat (filenameLength x + 1))) es \<Longrightarrow>
        name \<noteq> [] \<Longrightarrow> fopen_rb env name = Some f \<Longrightarrow>
        peek (length (encode_table es)) f = encode_table es \<Longrightarrow>
        mtf_file_open env name =
          (Ok (),
           \<lparr>osFileHandle = Some (skip (length (encode_table es)) f),
            fileEntries = Some (qsort mtf_sort_by_filename es),
            fileEntryCount = of_nat (length es)\<rparr>, [])"
    by (rule mtf_file_open_encoded)
  show "length (qsort mtf_sort_by_filename es) = length es" by (simp add: qsort_sort_key)
  show "mset (qsort mtf_sort_by_filename es) = mset es" by (simp add: qsort_sort_key)
  show "sorted (map entry_name (qsort mtf_sort_by_filename es))" by (simp add: qsort_sort_key)
  show "mset es = mset es' \<Longrightarrow> distinct (map entry_name es) \<Longrightarrow>
        qsort mtf_sort_by_filename es = qsort mtf_sort_by_filename es'"
    by (rule qsort_order_independent)
qed


text \<open>
  An archive of five entries with one-letter names, stored in the order e, c, a, d, b.
  Entries a, d and e are raw, entry b is compressed (one chunk of eight literals), and the
  compressed entry c is corrupt: it declares one byte and its first back-reference copies
  three.
\<close>

definition entry_of :: "byte \<Rightarrow> uint32_t \<Rightarrow> uint32_t \<Rightarrow> mtf_file_entry" where
  "entry_of c off sz =
     \<lparr>filename = Some [c], filenameLength = 1, dataOffset = off, decompressedSize = sz\<rparr>"

definition demo_entries :: "mtf_file_entry list" where
  "demo_entries =
     [entry_of 0x65 108 1, entry_of 0x63 92 1, entry_of 0x61 69 2, entry_of 0x64 107 1,
      entry_of 0x62 71 8]"

definition demo_sorted :: "mtf_file_entry list" where
  "demo_sorted =
     [entry_of 0x61 69 2, entry_of 0x62 71 8, entry_of 0x63 92 1, entry_of 0x64 107 1,
      entry_of 0x65 108 1]"

definition demo_payload :: "byte list" where
  "demo_payload =
     [0x10, 0x11,
      0xAE, 0xBE, 0, 0, 21, 0, 0, 0, 8, 0, 0, 0, 0xFF, 1, 2, 3, 4, 5, 6, 7, 8,
      0xAF, 0xBE, 0, 0, 15, 0, 0, 0, 1, 0, 0, 0, 0x00, 0x05, 0x00,
      0x20,
      0x21]"

definition demo_archive :: "byte list" where
  "demo_archive = encode_table demo_entries @ demo_payload"

definition demo_env :: os_env where
  "demo_env =
     \<lparr>fopen_rb = (\<lambda>name. Some (stream demo_archive)), malloc_ok = (\<lambda>n. True),
      heap_init = (\<lambda>a. 0), stack_init = replicate 12 0, fwrite_ok = (\<lambda>p n. True)\<rparr>"

lemma demo_table_length: "length (encode_table demo_entries) = 69"
  by (simp add: encode_table_def demo_entries_def encode_entry_def entry_of_def name_buffer_def)

lemma demo_qsort: "qsort mtf_sort_by_filename demo_entries = demo_sorted"
  by (simp add: qsort_def demo_entries_def demo_sorted_def mtf_sort_by_filename_def
      entry_name_def c_str_def entry_of_def)

theorem load_yields_sorted_index_witness:
  "mtf_file_open demo_env demo_path =
     (Ok (),
      \<lparr>osFileHandle = Some (skip 69 (stream demo_archive)), fileEntries = Some demo_sorted,
       fileEntryCount = 5\<rparr>, [])
   \<and> length demo_sorted = unat (5 :: uint32_t)
   \<and> sorted (map entry_name demo_sorted)
   \<and> strcmp [0x61] [0x62] \<le> 0
   \<and> mtf_sort_by_filename (entry_of 0x61 69 2) (entry_of 0x62 71 8) \<le> 0
   \<and> qsort mtf_sort_by_filename demo_entries = qsort mtf_sort_by_filename (rev demo_entries)"
proof -
  let ?f = "stream demo_archive"
  let ?m = "\<lparr>osFileHandle = Some (skip 69 ?f), fileEntries = Some demo_sorted,
             fileEntryCount = 5 :: uint32_t\<rparr>"
  note t = load_yields_sorted_index [where env = demo_env and name = demo_path and m = "?m"
      and r = "[]" and es = demo_entries and es' = "rev demo_entries" and f = "?f"
      and a = "entry_of 0x61 69 2" and b = "entry_of 0x62 71 8" and s = "[0x61]" and t = "[0x62]"]
  have h5: "demo_entries \<noteq> [] \<and> length demo_entries < 2 ^ 32 \<and>
      list_all table_entry_ok demo_entries \<and>
      malloc_ok demo_env (length demo_entries * entry_size) \<and>
      list_all (\<lambda>x. malloc_ok demo_env (unat (filenameLength x + 1))) demo_entries \<and>
      demo_path \<noteq> [] \<and> fopen_rb demo_env demo_path = Some ?f \<and>
      peek (length (encode_table demo_entries)) ?f = encode_table demo_entries"
    by (simp add: demo_entries_def entry_of_def table_entry_ok_def demo_env_def demo_path_def
        peek_def stream_def demo_archive_def)
  note t5 = t [THEN conjunct2, THEN conjunct2, THEN conjunct2, THEN conjunct2, THEN conjunct2,
      THEN conjunct2, THEN conjunct1]
  have c5: "mtf_file_open demo_env demo_path =
      (Ok (),
       \<lparr>osFileHandle = Some (skip (length (encode_table demo_entries)) ?f),
        fileEntries = Some (qsort mtf_sort_by_filename demo_entries),
        fileEntryCount = of_nat (length demo_entries)\<rparr>, [])"
    using t5 h5 by (rule mp [THEN conjunct1])
  have n5: "(of_nat (length demo_entries) :: uint32_t) = 5" by (simp add: demo_entries_def)
  have op: "mtf_file_open demo_env demo_path = (Ok (), ?m, [])"
    using c5 by (simp only: demo_table_length demo_qsort n5)
  have c1: "\<exists>es. fileEntries ?m = Some es \<and> length es = unat (fileEntryCount ?m) \<and>
      0 < unat (fileEntryCount ?m) \<and>
      (\<forall>f. fopen_rb demo_env demo_path = Some f \<longrightarrow> fileEntryCount ?m = le_word (peek 4 f)) \<and>
      sorted_wrt (\<lambda>a b. mtf_sort_by_filename a b \<le> 0) es \<and> sorted (map entry_name es)"
    using t [THEN conjunct1] op by (rule mp)
  then have c1': "length demo_sorted = unat (5 :: uint32_t) \<and> sorted (map entry_name demo_sorted)"
    by simp
  have h3: "0 \<notin> set [0x61 :: byte] \<and> 0 \<notin> set [0x62 :: byte]" by simp
  have c3: "strcmp [0x61] [0x62] \<le> 0"
    using t [THEN conjunct2, THEN conjunct2, THEN conjunct1] h3 by (simp only: simp_thms) simp
  have c2: "mtf_sort_by_filename (entry_of 0x61 69 2) (entry_of 0x62 71 8) \<le> 0"
    using t [THEN conjunct2, THEN conjunct1]
    by (simp add: entry_name_def entry_of_def c_str_def)
  have h6: "mset demo_entries = mset (rev demo_entries) \<and> distinct (map entry_name demo_entries)"
    by (simp add: demo_entries_def entry_name_def entry_of_def c_str_def)
  have c6: "qsort mtf_sort_by_filename demo_entries = qsort mtf_sort_by_filename (rev demo_entries)"
    using t [THEN conjunct2, THEN conjunct2, THEN conjunct2, THEN conjunct2, THEN conjunct2,
      THEN conjunct2, THEN conjunct2] h6 by (rule mp)
  show ?thesis using op c1' c3 c2 c6 by simp
qed

lemma skip_fields [simp]:
  "fpos (skip n f) = fpos f + n" "content (skip n f) = content f"
  "ferr (skip n f) = ferr f" "fault (skip n f) = fault f" "seekable (skip n f) = seekable f"
  by (simp_all add: skip_def)

lemma le32_bytes:
  "le32 w = [of_nat (unat w mod 256), of_nat (unat w div 256 mod 256),
             of_nat (unat w div 256 div 256 mod 256),
             of_nat (unat w div 256 div 256 div 256 mod 256)]"
proof -
  have 4: "(4::nat) = Suc (Suc (Suc (Suc 0)))" by simp
  show ?thesis
    unfolding le32_def 4 le_bytes.simps by (rule refl)
qed

lemma demo_table_bytes:
  "encode_table demo_entries =
     [5, 0, 0, 0,
      1, 0, 0, 0, 0x65, 108, 0, 0, 0, 1, 0, 0, 0,
      1, 0, 0, 0, 0x63, 92, 0, 0, 0, 1, 0, 0, 0,
      1, 0, 0, 0, 0x61, 69, 0, 0, 0, 2, 0, 0, 0,
      1, 0, 0, 0, 0x64, 107, 0, 0, 0, 1, 0, 0, 0,
      1, 0, 0, 0, 0x62, 71, 0, 0, 0, 8, 0, 0, 0]"
  by (simp add: encode_table_def demo_entries_def encode_entry_def entry_of_def name_buffer_def
      le32_bytes)

lemma demo_open:
  "mtf_file_open demo_env demo_path =
     (Ok (),
      \<lparr>osFileHandle = Some (skip 69 (stream demo_archive)), fileEntries = Some demo_sorted,
       fileEntryCount = 5\<rparr>, [])"
proof -
  have "mtf_file_open demo_env demo_path =
      (Ok (),
       \<lparr>osFileHandle = Some (skip (length (encode_table demo_entries)) (stream demo_archive)),
        fileEntries = Some (qsort mtf_sort_by_filename demo_entries),
        fileEntryCount = of_nat (length demo_entries)\<rparr>, [])"
    by (rule mtf_file_open_encoded)
      (simp_all add: demo_entries_def entry_of_def table_entry_ok_def demo_env_def demo_path_def
        peek_def stream_def demo_archive_def)
  moreover have "(of_nat (length demo_entries) :: uint32_t) = 5" by (simp add: demo_entries_def)
  ultimately show ?thesis by (simp only: demo_table_length demo_qsort)
qed

lemma demo_archive_length: "length demo_archive = 109"
  by (simp add: demo_archive_def demo_table_length demo_payload_def)

text \<open>
  Two archives of one entry that end inside the filename. The first declares a name of
  five bytes and has one; the second declares a name of \<open>0xFFFFFFFF\<close> bytes and has one.
\<close>

definition short_name_archive :: "byte list" where
  "short_name_archive = [1, 0, 0, 0, 5, 0, 0, 0, 0x61]"

definition overflow_archive :: "byte list" where
  "overflow_archive = [1, 0, 0, 0, 0xFF, 0xFF, 0xFF, 0xFF, 0x61]"

definition archive_env :: "byte list \<Rightarrow> os_env" where
  "archive_env bs =
     \<lparr>fopen_rb = (\<lambda>name. Some (stream bs)), malloc_ok = (\<lambda>n. True),
      heap_init = (\<lambda>a. 0), stack_init = replicate 12 0, fwrite_ok = (\<lambda>p n. True)\<rparr>"

text \<open>The equations that evaluate the loader on a concrete archive.\<close>

lemmas loader_eval =
  mtf_file_open_def read_entries.simps read_entry_def mtf_read32_def short_read32_def
  fread_bytes_def stream_def le_word_def le_nat_def Let_def archive_env_def close_struct_def
  zero_entry_def demo_path_def peek_def skip_def le32_bytes

text \<open>
  Claim C5 asks that a short read of the filename bytes fails the load with an \<open>IoError\<close>
  and that what was built is released. The source does not test the read of the filename;
  when the archive ends inside the name, the read of the data offset behind it fails, the
  load fails with a read error and the stream, the name and the array are released. This
  holds for the first archive. The buffer of the name has \<^verbatim>\<open>filenameLength + 1\<close> bytes,
  computed in 32 bits: for the second archive the sum is 0, the archive has one byte of the
  name where \<open>0xFFFFFFFF\<close> are declared, and that byte and the terminator at
  \<^verbatim>\<open>filename[0xFFFFFFFF]\<close> are stored outside the empty block. The load does not end with
  an error.
\<close>

theorem name_length_overflow_is_not_detected:
  "mtf_file_open (archive_env short_name_archive) demo_path =
     (Failed ReadOffsetSizeFailed,
      \<lparr>osFileHandle = None, fileEntries = None, fileEntryCount = 0\<rparr>,
      [Closed_stream, Freed_name [0x61, 0, 0, 0, 0], Freed_entries])
   \<and> kind_of ReadOffsetSizeFailed = IoError
   \<and> mtf_read32 (skip 4 (stream overflow_archive)) =
       (Inr 0xFFFFFFFF, skip 8 (stream overflow_archive))
   \<and> unat ((0xFFFFFFFF :: uint32_t) + 1) = 0
   \<and> length (peek (unat (0xFFFFFFFF :: uint32_t)) (skip 8 (stream overflow_archive))) = 1
   \<and> read_entry (archive_env overflow_archive) (skip 4 (stream overflow_archive)) zero_entry =
       (Overrun, skip 8 (stream overflow_archive),
        \<lparr>filename = Some [], filenameLength = 0xFFFFFFFF, dataOffset = 0, decompressedSize = 0\<rparr>)
   \<and> fst (mtf_file_open (archive_env overflow_archive) demo_path) = Overrun"
  by (simp add: loader_eval short_name_archive_def overflow_archive_def upt_rec)

text \<open>
  An archive of two bytes: the read of the entry count is short, and the two bytes stay in
  the count of the structure, which \<^verbatim>\<open>mtf_file_close\<close> does not reset when there is no
  array.
\<close>

lemma short_count_stays_in_the_structure:
  "mtf_file_open (archive_env [5, 0]) demo_path =
     (Failed ReadCountFailed,
      \<lparr>osFileHandle = None, fileEntries = None, fileEntryCount = 5\<rparr>, [Closed_stream])"
  by (simp add: loader_eval)

section \<open>Paths and directories\<close>

text \<open>
  \<^verbatim>\<open>mtf_is_ascii(int ch)\<close>. The argument is a \<^verbatim>\<open>char\<close> converted to \<^verbatim>\<open>int\<close>; where \<^verbatim>\<open>char\<close> is
  signed a byte above 127 arrives as a negative number, where it is unsigned as a number
  from 128 on, and the test fails for it either way. The model takes \<^verbatim>\<open>char\<close> signed.
\<close>

definition mtf_is_ascii :: "int \<Rightarrow> bool" where
  "mtf_is_ascii ch = (0 \<le> ch \<and> ch < 128)"

text \<open>\<^verbatim>\<open>mtf_fix_filepath\<close>: the loop over the characters up to the terminator.\<close>

fun mtf_fix_filepath :: "cstring \<Rightarrow> cstring" where
  "mtf_fix_filepath [] = []"
| "mtf_fix_filepath (c # p) =
     (if c = backslash then slash
      else if \<not> mtf_is_ascii (sint c) then qmark
      else c) # mtf_fix_filepath p"

text \<open>\<^verbatim>\<open>mtf_make_directory\<close>: \<^verbatim>\<open>stat\<close>, then \<^verbatim>\<open>mkdir\<close> or the test \<^verbatim>\<open>S_ISDIR\<close>.\<close>

definition mtf_make_directory :: "fs \<Rightarrow> cstring \<Rightarrow> mtf_error option \<times> fs" where
  "mtf_make_directory t dirPath =
     (case stat t dirPath of
        None \<Rightarrow>
          (case mkdir t dirPath of
             None \<Rightarrow> (Some MkdirFailed, t)
           | Some t' \<Rightarrow> (None, t'))
      | Some n \<Rightarrow> if n \<noteq> Dir then (Some PathIsFile, t) else (None, t))"

definition MTF_MAX_PATH_LEN :: nat where
  "MTF_MAX_PATH_LEN = 1024"

text \<open>
  The loop of \<^verbatim>\<open>mtf_make_path\<close> from the character \<open>i\<close> on. At a separator the string is
  cut there for the call of \<^verbatim>\<open>mtf_make_directory\<close>, and the separator is put back as a
  slash.
\<close>

function make_path_loop :: "fs \<Rightarrow> cstring \<Rightarrow> nat \<Rightarrow> mtf_error option \<times> fs" where
  "make_path_loop t dirPath i =
     (if i < length dirPath then
        (if dirPath ! i = slash \<or> dirPath ! i = backslash then
           (case mtf_make_directory t (take i dirPath) of
              (Some e, t') \<Rightarrow> (Some e, t')
            | (None, t') \<Rightarrow> make_path_loop t' (dirPath[i := slash]) (i + 1))
         else make_path_loop t dirPath (i + 1))
      else (None, t))"
  by pat_completeness auto
termination
  by (relation "measure (\<lambda>(t, dirPath, i). length dirPath - i)") auto

declare make_path_loop.simps [simp del]

definition mtf_make_path :: "fs \<Rightarrow> cstring \<Rightarrow> unit outcome \<times> fs" where
  "mtf_make_path t p =
     (if \<not> length p < MTF_MAX_PATH_LEN then (Aborted, t)
      else
        (case make_path_loop t p 0 of
           (Some e, t') \<Rightarrow> (Failed e, t')
         | (None, t') \<Rightarrow> (Ok (), t')))"

section \<open>Extraction\<close>

text \<open>
  \<^verbatim>\<open>mtf_compressed_header_t\<close>, twelve bytes. The last field has the name of a field of
  the entry in the source; here it is \<open>headerSize\<close>.
\<close>

record mtf_compressed_header =
  magic1 :: byte
  magic2 :: byte
  unknown :: uint16_t
  compressedSize :: uint32_t
  headerSize :: uint32_t

definition header_of :: "byte list \<Rightarrow> mtf_compressed_header" where
  "header_of bs =
     \<lparr>magic1 = bs ! 0, magic2 = bs ! 1, unknown = le_word (take 2 (drop 2 bs)),
      compressedSize = le_word (take 4 (drop 4 bs)), headerSize = le_word (take 4 (drop 8 bs))\<rparr>"

text \<open>
  \<^verbatim>\<open>mtf_read_compressed_header\<close>: the results of \<^verbatim>\<open>fseek\<close> and \<^verbatim>\<open>fread\<close> are not tested, the
  function returns \<^verbatim>\<open>!ferror(fileIn)\<close>. The structure is a local variable with no
  initial value; bytes that a short read does not reach keep what the stack held.
\<close>

definition mtf_read_compressed_header ::
  "os_env \<Rightarrow> in_file \<Rightarrow> uint32_t \<Rightarrow> bool \<times> in_file \<times> mtf_compressed_header" where
  "mtf_read_compressed_header env fileIn offset =
     (case fread_bytes 12 (snd (fseek_set (unat offset) fileIn)) of
        (got, f) \<Rightarrow>
          (\<not> ferr f, f,
           header_of (take 12 (got @ drop (length got) (stack_init env) @ replicate 12 0))))"

definition mtf_is_compressed :: "mtf_compressed_header \<Rightarrow> bool" where
  "mtf_is_compressed header =
     (if magic1 header = 0xAE \<and> magic2 header = 0xBE then True
      else if magic1 header = 0xAF \<and> magic2 header = 0xBE then True
      else False)"

text \<open>\<^verbatim>\<open>mtf_write_file(fileIn, fileOut, sizeInBytes, readOffset)\<close>: the copy of a raw entry.\<close>

definition mtf_write_file ::
  "os_env \<Rightarrow> in_file \<Rightarrow> cstring \<Rightarrow> fs \<Rightarrow> uint32_t \<Rightarrow> uint32_t \<Rightarrow> unit outcome \<times> in_file \<times> fs" where
  "mtf_write_file env fileIn fileOut t sizeInBytes readOffset =
     (if \<not> malloc_ok env (unat sizeInBytes) then (Failed RawMallocFailed, fileIn, t)
      else
        (case fseek_set (unat readOffset) fileIn of
           (False, f1) \<Rightarrow> (Failed RawSeekFailed, f1, t)
         | (True, f1) \<Rightarrow>
             (case fread_bytes (unat sizeInBytes) f1 of (got, f2) \<Rightarrow>
                if length got \<noteq> unat sizeInBytes then (Failed RawReadFailed, f2, t)
                else
                  (case fwrite env fileOut got t of
                     (False, t') \<Rightarrow> (Failed RawWriteFailed, f2, t')
                   | (True, t') \<Rightarrow> (Ok (), f2, t')))))"

text \<open>
  The body of the loop of \<^verbatim>\<open>mtf_file_extract_batch\<close> for one entry. \<open>Ok success\<close> is
  the end of the body with the variable \<^verbatim>\<open>success\<close>; \<open>Failed e\<close> is a \<^verbatim>\<open>return\<close> of the
  whole call with the error \<open>e\<close>, after \<^verbatim>\<open>mtf_file_close\<close>. \<^verbatim>\<open>snprintf\<close> keeps at most
  \<open>MTF_MAX_PATH_LEN - 1\<close> characters. The result of \<^verbatim>\<open>mtf_make_path\<close> is not used.
\<close>

definition extraction_path :: "cstring \<Rightarrow> mtf_file_entry \<Rightarrow> cstring" where
  "extraction_path destPath entry =
     mtf_fix_filepath (take (MTF_MAX_PATH_LEN - 1) (destPath @ slash # entry_name entry))"

definition extract_entry ::
  "os_env \<Rightarrow> cstring \<Rightarrow> mtf_file_entry \<Rightarrow> in_file \<Rightarrow> fs \<Rightarrow> bool outcome \<times> in_file \<times> fs" where
  "extract_entry env destPath entry f t =
     (case mtf_read_compressed_header env f (dataOffset entry) of
        (False, f1, header) \<Rightarrow> (Failed ReadHeaderFailed, f1, t)
      | (True, f1, header) \<Rightarrow>
          (let path = extraction_path destPath entry in
           case mtf_make_path t path of
             (Aborted, t1) \<Rightarrow> (Aborted, f1, t1)
           | (made, t1) \<Rightarrow>
               (case fopen_wb t1 path of
                  None \<Rightarrow> (Failed CantCreateOutput, f1, t1)
                | Some t2 \<Rightarrow>
                    (case (if mtf_is_compressed header
                           then mtf_decompress_write_file env f1 path t2 (decompressedSize entry)
                           else mtf_write_file env f1 path t2 (decompressedSize entry)
                                  (dataOffset entry)) of
                       (Ok u, f2, t3) \<Rightarrow> (Ok True, f2, t3)
                     | (Failed e, f2, t3) \<Rightarrow> (Ok False, f2, t3)
                     | (Aborted, f2, t3) \<Rightarrow> (Aborted, f2, t3)
                     | (Overrun, f2, t3) \<Rightarrow> (Overrun, f2, t3)))))"

text \<open>
  The loop \<^verbatim>\<open>for (e = 0; e < mtf.fileEntryCount; ++e)\<close> over the entries that are left,
  with \<^verbatim>\<open>successCount\<close> as the last argument. \<^verbatim>\<open>successCount\<close> and \<^verbatim>\<open>maxFileToExtract\<close>
  are \<^verbatim>\<open>int\<close>s of 32 bits.
\<close>

fun extract_entries ::
  "os_env \<Rightarrow> cstring \<Rightarrow> int \<Rightarrow> mtf_file_entry list \<Rightarrow> in_file \<Rightarrow> fs \<Rightarrow> int \<Rightarrow>
     int outcome \<times> in_file \<times> fs" where
  "extract_entries env destPath maxFileToExtract [] f t successCount = (Ok successCount, f, t)"
| "extract_entries env destPath maxFileToExtract (entry # rest) f t successCount =
     (case extract_entry env destPath entry f t of
        (Ok success, f', t') \<Rightarrow>
          if success then
            (if 0 < maxFileToExtract \<and> int32 (successCount + 1) = maxFileToExtract
             then (Ok (int32 (successCount + 1)), f', t')
             else extract_entries env destPath maxFileToExtract rest f' t'
                    (int32 (successCount + 1)))
          else extract_entries env destPath maxFileToExtract rest f' t' successCount
      | (Failed e, f', t') \<Rightarrow> (Failed e, f', t')
      | (Aborted, f', t') \<Rightarrow> (Aborted, f', t')
      | (Overrun, f', t') \<Rightarrow> (Overrun, f', t'))"

text \<open>
  \<^verbatim>\<open>mtf_file_extract_batch\<close>. The result is \<open>Ok n\<close> when the call returns true with
  \<open>n\<close> stored in \<^verbatim>\<open>*filesExtracted\<close>; when it returns false nothing is stored there. The
  second component is the output file system, the third what the call released. After
  \<^verbatim>\<open>mtf_file_open\<close> has returned true the structure has its stream and its array.
\<close>

definition MTF_EXTRACT_ALL :: int where
  "MTF_EXTRACT_ALL = - 1"

definition mtf_file_extract_batch ::
  "os_env \<Rightarrow> cstring \<Rightarrow> cstring \<Rightarrow> int \<Rightarrow> fs \<Rightarrow> int outcome \<times> fs \<times> released list" where
  "mtf_file_extract_batch env srcMtfFile destPath maxFileToExtract t =
     (if srcMtfFile = [] \<or> destPath = [] then (Aborted, t, [])
      else
        (case mtf_file_open env srcMtfFile of
           (Aborted, mtf, r) \<Rightarrow> (Aborted, t, r)
         | (Overrun, mtf, r) \<Rightarrow> (Overrun, t, r)
         | (Failed e, mtf, r) \<Rightarrow> (Failed e, t, r)
         | (Ok u, mtf, r) \<Rightarrow>
             (case (osFileHandle mtf, fileEntries mtf) of
                (Some f, Some es) \<Rightarrow>
                  (case extract_entries env destPath maxFileToExtract
                          (take (unat (fileEntryCount mtf)) es) f t 0 of
                     (Ok n, f', t') \<Rightarrow>
                       (Ok n, t', r @ snd (close_struct (mtf\<lparr>osFileHandle := Some f'\<rparr>)))
                   | (Failed e, f', t') \<Rightarrow>
                       (Failed e, t', r @ snd (close_struct (mtf\<lparr>osFileHandle := Some f'\<rparr>)))
                   | (Aborted, f', t') \<Rightarrow> (Aborted, t', r)
                   | (Overrun, f', t') \<Rightarrow> (Overrun, t', r))
              | other \<Rightarrow> (Aborted, t, r))))"

section \<open>What the path functions compute\<close>

lemma bit_7_byte: "bit (c :: byte) 7 = (128 \<le> c)"
proof -
  have u: "unat c < 256" using unsigned_less [of c] by simp
  have "bit c 7 = bit (unat c) 7" by (simp add: bit_unsigned_iff)
  also have "\<dots> = odd (unat c div 2 ^ 7)" by (simp only: bit_iff_odd)
  also have "\<dots> = (128 \<le> unat c)"
  proof (cases "128 \<le> unat c")
    case True
    with u have "unat c div 128 = 1" by simp
    with True show ?thesis by simp
  next
    case False
    then have "unat c div 128 = 0" by simp
    with False show ?thesis by simp
  qed
  also have "\<dots> = (128 \<le> c)" by (simp add: word_le_nat_alt)
  finally show ?thesis .
qed

lemma mtf_is_ascii_sint: "mtf_is_ascii (sint (c :: byte)) = (c < 128)"
proof -
  have "sint c < 128" using sint_lt [of c] by simp
  moreover have "(0 \<le> sint c) = (c < 128)"
    using bit_last_iff [of c] bit_7_byte [of c] by (auto simp: not_le not_less)
  ultimately show ?thesis by (simp add: mtf_is_ascii_def)
qed

lemma mtf_fix_filepath_map:
  "mtf_fix_filepath p =
     map (\<lambda>c. if c = backslash then slash else if c < 128 then c else qmark) p"
  by (induction p) (simp_all add: mtf_is_ascii_sint)

lemma mtf_fix_filepath_ascii:
  "c \<in> set (mtf_fix_filepath p) \<Longrightarrow> c < 128 \<and> c \<noteq> backslash"
  by (auto simp: mtf_fix_filepath_map slash_def backslash_def qmark_def split: if_splits)

section \<open>Raw entries\<close>

lemma mtf_is_compressed_iff:
  "mtf_is_compressed h = ((magic1 h = 0xAE \<or> magic1 h = 0xAF) \<and> magic2 h = 0xBE)"
  by (auto simp: mtf_is_compressed_def)

lemma length_mtf_fix_filepath [simp]: "length (mtf_fix_filepath p) = length p"
  by (induction p) simp_all

lemma length_extraction_path: "length (extraction_path destPath entry) < MTF_MAX_PATH_LEN"
  by (simp add: extraction_path_def MTF_MAX_PATH_LEN_def)

lemma mtf_make_path_cases:
  "length p < MTF_MAX_PATH_LEN \<Longrightarrow>
   (\<exists>e. fst (mtf_make_path t p) = Failed e) \<or> fst (mtf_make_path t p) = Ok ()"
  by (simp add: mtf_make_path_def split: prod.splits option.splits)

text \<open>The stream after the read of the header: only its position has moved.\<close>

lemma fseek_set_fields [simp]:
  "content (snd (fseek_set n f)) = content f" "seekable (snd (fseek_set n f)) = seekable f"
  "fault (snd (fseek_set n f)) = fault f" "ferr (snd (fseek_set n f)) = ferr f"
  by (simp_all add: fseek_set_def)

lemma fread_bytes_fields [simp]:
  "content (snd (fread_bytes n f)) = content f" "seekable (snd (fread_bytes n f)) = seekable f"
  "fault (snd (fread_bytes n f)) = fault f"
  by (simp_all add: fread_bytes_def Let_def)

lemma fread_bytes_ferr: "ferr f \<Longrightarrow> ferr (snd (fread_bytes n f))"
  by (simp add: fread_bytes_def Let_def)

lemma mtf_read_compressed_header_stream:
  assumes "mtf_read_compressed_header env f off = (ok, f1, h)"
  shows "content f1 = content f" "seekable f1 = seekable f" "fault f1 = fault f"
    "ok = (\<not> ferr f1)" "ferr f \<Longrightarrow> ferr f1"
proof -
  let ?g = "snd (fseek_set (unat off) f)"
  from assms have f1: "f1 = snd (fread_bytes 12 ?g)" and ok: "ok = (\<not> ferr f1)"
    by (auto simp: mtf_read_compressed_header_def split: prod.splits)
  show "content f1 = content f" "seekable f1 = seekable f" "fault f1 = fault f"
    by (simp_all add: f1)
  show "ok = (\<not> ferr f1)" by (rule ok)
  show "ferr f \<Longrightarrow> ferr f1" unfolding f1 by (rule fread_bytes_ferr) simp
qed

lemma nth_take_append: "i < length xs \<Longrightarrow> i < n \<Longrightarrow> take n (xs @ ys) ! i = xs ! i"
  by (simp add: nth_append)

lemma header_of_magic: "magic1 (header_of bs) = bs ! 0" "magic2 (header_of bs) = bs ! 1"
  by (simp_all add: header_of_def)

lemma mtf_read_compressed_header_magic:
  assumes "seekable f" "unat off + 2 \<le> length (content f)"
    and "mtf_read_compressed_header env f off = (ok, f1, h)"
  shows "magic1 h = content f ! unat off" "magic2 h = content f ! (unat off + 1)"
proof -
  define got where "got = fst (fread_bytes 12 (snd (fseek_set (unat off) f)))"
  define rest where "rest = drop (length got) (stack_init env) @ replicate 12 (0 :: byte)"
  have h: "h = header_of (take 12 (got @ rest))"
    using assms(3) unfolding got_def rest_def mtf_read_compressed_header_def
    by (auto split: prod.splits)
  have got: "got = take 12 (drop (unat off) (content f))"
    unfolding got_def using assms(1) by (simp add: fread_bytes_def fseek_set_def Let_def)
  have len: "0 < length got" "1 < length got" using assms(2) unfolding got by simp_all
  have n0: "take 12 (got @ rest) ! 0 = got ! 0" using len(1) by (rule nth_take_append) simp
  have n1: "take 12 (got @ rest) ! 1 = got ! 1" using len(2) by (rule nth_take_append) simp
  have g0: "got ! 0 = content f ! unat off" unfolding got using assms(2) by simp
  have g1: "got ! 1 = content f ! (unat off + 1)" unfolding got using assms(2) by simp
  show "magic1 h = content f ! unat off" unfolding h header_of_magic n0 g0 by (rule refl)
  show "magic2 h = content f ! (unat off + 1)" unfolding h header_of_magic n1 g1 by (rule refl)
qed

text \<open>When the copy of a raw entry succeeds, and what it has done then.\<close>

lemma mtf_write_file_Ok_iff:
  "mtf_write_file env f out t sz off = (Ok (), f', t') \<longleftrightarrow>
     malloc_ok env (unat sz) \<and> seekable f \<and> unat sz \<le> length (content f) - unat off \<and>
     fwrite_ok env out (unat sz) \<and> f' = f\<lparr>fpos := unat off + unat sz\<rparr> \<and>
     t' = t(out \<mapsto> File (file_bytes t out @ take (unat sz) (drop (unat off) (content f))))"
proof (cases "malloc_ok env (unat sz) \<and> seekable f")
  case False
  then show ?thesis by (auto simp: mtf_write_file_def fseek_set_def)
next
  case True
  let ?got = "take (unat sz) (drop (unat off) (content f))"
  have len: "length ?got = min (unat sz) (length (content f) - unat off)" by simp
  show ?thesis
  proof (cases "unat sz \<le> length (content f) - unat off")
    case False
    then have "length ?got \<noteq> unat sz" by simp
    with True False show ?thesis
      by (simp add: mtf_write_file_def fseek_set_def fread_bytes_def Let_def)
  next
    case le: True
    then have "length ?got = unat sz" by simp
    with True le show ?thesis
      by (auto simp: mtf_write_file_def fseek_set_def fread_bytes_def Let_def fwrite_def)
  qed
qed

lemma mtf_write_file_outcome:
  "fst (mtf_write_file env f out t sz off) \<noteq> Aborted"
  by (simp add: mtf_write_file_def fseek_set_def fread_bytes_def fwrite_def Let_def)

lemma fopen_wb_SomeD:
  "fopen_wb t p = Some t2 \<Longrightarrow> t2 = t(p \<mapsto> File [])"
  by (auto simp: fopen_wb_def split: if_splits)

text \<open>The three ways through the body of the loop.\<close>

lemma extract_entry_header_failed:
  "mtf_read_compressed_header env f (dataOffset e) = (False, f1, h) \<Longrightarrow>
   extract_entry env dest e f t = (Failed ReadHeaderFailed, f1, t)"
  by (simp add: extract_entry_def)

lemma extract_entry_fopen_failed:
  assumes "mtf_read_compressed_header env f (dataOffset e) = (True, f1, h)"
    and "mtf_make_path t (extraction_path dest e) = (made, t1)"
    and "fopen_wb t1 (extraction_path dest e) = None"
  shows "extract_entry env dest e f t = (Failed CantCreateOutput, f1, t1)"
  using mtf_make_path_cases [OF length_extraction_path, of t dest e] assms
  by (auto simp: extract_entry_def Let_def)

text \<open>What the body makes of the result of the decompressor or of the copy.\<close>

definition payload_result :: "unit outcome \<times> in_file \<times> fs \<Rightarrow> bool outcome \<times> in_file \<times> fs" where
  "payload_result x =
     (case x of
        (Ok u, f2, t3) \<Rightarrow> (Ok True, f2, t3)
      | (Failed e, f2, t3) \<Rightarrow> (Ok False, f2, t3)
      | (Aborted, f2, t3) \<Rightarrow> (Aborted, f2, t3)
      | (Overrun, f2, t3) \<Rightarrow> (Overrun, f2, t3))"

lemma extract_entry_payload:
  assumes "mtf_read_compressed_header env f (dataOffset e) = (True, f1, h)"
    and "mtf_make_path t (extraction_path dest e) = (made, t1)"
    and "fopen_wb t1 (extraction_path dest e) = Some t2"
  shows "extract_entry env dest e f t =
           payload_result
             (if mtf_is_compressed h
              then mtf_decompress_write_file env f1 (extraction_path dest e) t2 (decompressedSize e)
              else mtf_write_file env f1 (extraction_path dest e) t2 (decompressedSize e)
                     (dataOffset e))"
  using mtf_make_path_cases [OF length_extraction_path, of t dest e] assms
  by (auto simp: extract_entry_def Let_def payload_result_def)

lemma payload_result_simps [simp]:
  "payload_result (Aborted, f, t) = (Aborted, f, t)"
  "payload_result (Overrun, f, t) = (Overrun, f, t)"
  "payload_result (Failed e, f, t) = (Ok False, f, t)"
  "payload_result (Ok u, f, t) = (Ok True, f, t)"
  by (simp_all add: payload_result_def)

lemma payload_result_True:
  "payload_result x = (Ok True, f, t) \<longleftrightarrow> x = (Ok (), f, t)"
  by (cases x; cases "fst x") (auto simp: payload_result_def)

lemma payload_result_False:
  "payload_result x = (Ok False, f, t) \<longleftrightarrow> (\<exists>e. x = (Failed e, f, t))"
  by (cases x; cases "fst x") (auto simp: payload_result_def)

lemma extract_entry_raw_Ok:
  assumes hdr: "mtf_read_compressed_header env f (dataOffset e) = (ok, f1, h)"
    and raw: "\<not> mtf_is_compressed h"
    and res: "extract_entry env dest e f t = (Ok True, f', t')"
  shows "file_bytes t' (extraction_path dest e) =
           take (unat (decompressedSize e)) (drop (unat (dataOffset e)) (content f))"
    and "unat (decompressedSize e) \<le> length (content f) - unat (dataOffset e)"
    and "fpos f' = unat (dataOffset e) + unat (decompressedSize e)"
proof -
  let ?p = "extraction_path dest e"
  have ok: "ok"
  proof (rule ccontr)
    assume "\<not> ok"
    with hdr have "mtf_read_compressed_header env f (dataOffset e) = (False, f1, h)" by simp
    from extract_entry_header_failed [OF this] res show False by simp
  qed
  with hdr have hdr': "mtf_read_compressed_header env f (dataOffset e) = (True, f1, h)" by simp
  obtain made t1 where mk: "mtf_make_path t ?p = (made, t1)" by (cases "mtf_make_path t ?p")
  obtain t2 where op: "fopen_wb t1 ?p = Some t2"
  proof (cases "fopen_wb t1 ?p")
    case None
    from extract_entry_fopen_failed [OF hdr' mk None] res show ?thesis by simp
  next
    case (Some t2)
    then show ?thesis by (rule that)
  qed
  from extract_entry_payload [OF hdr' mk op] raw res
  have "payload_result (mtf_write_file env f1 ?p t2 (decompressedSize e) (dataOffset e)) =
      (Ok True, f', t')"
    by simp
  then have w: "mtf_write_file env f1 ?p t2 (decompressedSize e) (dataOffset e) = (Ok (), f', t')"
    by (simp only: payload_result_True)
  note c = mtf_read_compressed_header_stream [OF hdr]
  from w [unfolded mtf_write_file_Ok_iff] c fopen_wb_SomeD [OF op]
  show "file_bytes t' ?p =
           take (unat (decompressedSize e)) (drop (unat (dataOffset e)) (content f))"
    and "unat (decompressedSize e) \<le> length (content f) - unat (dataOffset e)"
    and "fpos f' = unat (dataOffset e) + unat (decompressedSize e)"
    by (simp_all add: file_bytes_def)
qed

section \<open>The demonstration archive, entry by entry\<close>

lemma demo_archive_bytes:
  "demo_archive =
     [5, 0, 0, 0,
      1, 0, 0, 0, 0x65, 108, 0, 0, 0, 1, 0, 0, 0,
      1, 0, 0, 0, 0x63, 92, 0, 0, 0, 1, 0, 0, 0,
      1, 0, 0, 0, 0x61, 69, 0, 0, 0, 2, 0, 0, 0,
      1, 0, 0, 0, 0x64, 107, 0, 0, 0, 1, 0, 0, 0,
      1, 0, 0, 0, 0x62, 71, 0, 0, 0, 8, 0, 0, 0,
      0x10, 0x11,
      0xAE, 0xBE, 0, 0, 21, 0, 0, 0, 8, 0, 0, 0, 0xFF, 1, 2, 3, 4, 5, 6, 7, 8,
      0xAF, 0xBE, 0, 0, 15, 0, 0, 0, 1, 0, 0, 0, 0x00, 0x05, 0x00,
      0x20,
      0x21]"
  by (simp add: demo_archive_def demo_table_bytes demo_payload_def)

text \<open>The stream of the demonstration archive at the position \<open>k\<close>.\<close>

definition demo_at :: "nat \<Rightarrow> in_file" where
  "demo_at k = \<lparr>content = demo_archive, fpos = k, ferr = False, fault = False, seekable = True\<rparr>"

lemma demo_at_skip: "skip n (stream demo_archive) = demo_at n" "skip n (demo_at k) = demo_at (k + n)"
  by (simp_all add: skip_def stream_def demo_at_def)

lemma demo_peek: "peek n (demo_at k) = take n (drop k demo_archive)"
  by (simp add: peek_def demo_at_def)

lemma demo_at_fields [simp]:
  "content (demo_at k) = demo_archive" "fpos (demo_at k) = k" "ferr (demo_at k) = False"
  "fault (demo_at k) = False" "seekable (demo_at k) = True"
  by (simp_all add: demo_at_def)

lemma demo_at_fpos [simp]: "(demo_at k)\<lparr>fpos := n\<rparr> = demo_at n"
  by (simp add: demo_at_def)

lemma demo_fread:
  "fread_bytes n (demo_at k) =
     (take n (drop k demo_archive), demo_at (k + length (take n (drop k demo_archive))))"
  by (simp add: fread_bytes_def Let_def demo_at_def)

lemma demo_header:
  "mtf_read_compressed_header demo_env (demo_at k) off =
     (True, demo_at (unat off + length (take 12 (drop (unat off) demo_archive))),
      header_of (take 12 (take 12 (drop (unat off) demo_archive) @
        drop (length (take 12 (drop (unat off) demo_archive))) (replicate 12 0) @
        replicate 12 0)))"
  by (simp add: mtf_read_compressed_header_def fseek_set_def demo_fread demo_env_def
      del: length_take take_all_iff)

lemma demo_tail:
  "drop 69 demo_archive =
     [0x10, 0x11,
      0xAE, 0xBE, 0, 0, 21, 0, 0, 0, 8, 0, 0, 0, 0xFF, 1, 2, 3, 4, 5, 6, 7, 8,
      0xAF, 0xBE, 0, 0, 15, 0, 0, 0, 1, 0, 0, 0, 0x00, 0x05, 0x00,
      0x20,
      0x21]"
  by (simp add: demo_archive_def demo_table_length demo_payload_def)

lemma demo_drop: "drop (69 + k) demo_archive = drop k (drop 69 demo_archive)"
  by (simp add: add.commute)

lemma le_nat_zeros [simp]: "le_nat (replicate n 0) = 0" "le_nat [] = 0"
  by (induction n) (simp_all add: le_nat_def)

lemma demo_header_a:
  "mtf_read_compressed_header demo_env (demo_at k) 69 =
     (True, demo_at 81,
      \<lparr>magic1 = 0x10, magic2 = 0x11, unknown = 0xBEAE, compressedSize = 0x150000,
       headerSize = 0x80000\<rparr>)"
  unfolding demo_header
  by (simp add: demo_tail header_of_def le_word_def le_nat_Cons)

lemma demo_header_b:
  "mtf_read_compressed_header demo_env (demo_at k) 71 =
     (True, demo_at 83,
      \<lparr>magic1 = 0xAE, magic2 = 0xBE, unknown = 0, compressedSize = 21, headerSize = 8\<rparr>)"
  unfolding demo_header
  using demo_drop [of 2]
  by (simp add: demo_tail header_of_def le_word_def le_nat_Cons)

lemma demo_header_c:
  "mtf_read_compressed_header demo_env (demo_at k) 92 =
     (True, demo_at 104,
      \<lparr>magic1 = 0xAF, magic2 = 0xBE, unknown = 0, compressedSize = 15, headerSize = 1\<rparr>)"
  unfolding demo_header
  using demo_drop [of 23]
  by (simp add: demo_tail header_of_def le_word_def le_nat_Cons)

lemma demo_header_d:
  "mtf_read_compressed_header demo_env (demo_at k) 107 =
     (True, demo_at 109,
      \<lparr>magic1 = 0x20, magic2 = 0x21, unknown = 0, compressedSize = 0, headerSize = 0\<rparr>)"
  unfolding demo_header
  using demo_drop [of 38]
  by (simp add: demo_tail header_of_def le_word_def le_nat_Cons)

lemma demo_header_e:
  "mtf_read_compressed_header demo_env (demo_at k) 108 =
     (True, demo_at 109,
      \<lparr>magic1 = 0x21, magic2 = 0, unknown = 0, compressedSize = 0, headerSize = 0\<rparr>)"
  unfolding demo_header
  using demo_drop [of 39]
  by (simp add: demo_tail header_of_def le_word_def le_nat_Cons)

lemma demo_write_file:
  "length (take (unat sz) (drop (unat off) demo_archive)) = unat sz \<Longrightarrow>
   mtf_write_file demo_env (demo_at k) p t sz off =
     (Ok (), demo_at (unat off + unat sz),
      t(p \<mapsto> File (file_bytes t p @ take (unat sz) (drop (unat off) demo_archive))))"
  unfolding mtf_write_file_Ok_iff by (simp add: demo_env_def)

lemma demo_raw_copy:
  "mtf_write_file demo_env (demo_at k) p t 2 69 =
     (Ok (), demo_at 71, t(p \<mapsto> File (file_bytes t p @ [0x10, 0x11])))"
  "mtf_write_file demo_env (demo_at k) p t 1 107 =
     (Ok (), demo_at 108, t(p \<mapsto> File (file_bytes t p @ [0x20])))"
  "mtf_write_file demo_env (demo_at k) p t 1 108 =
     (Ok (), demo_at 109, t(p \<mapsto> File (file_bytes t p @ [0x21])))"
proof -
  show "mtf_write_file demo_env (demo_at k) p t 2 69 =
     (Ok (), demo_at 71, t(p \<mapsto> File (file_bytes t p @ [0x10, 0x11])))"
    using demo_write_file [of 2 69 k p t] by (simp add: demo_tail demo_archive_length)
  show "mtf_write_file demo_env (demo_at k) p t 1 107 =
     (Ok (), demo_at 108, t(p \<mapsto> File (file_bytes t p @ [0x20])))"
    using demo_write_file [of 1 107 k p t] demo_drop [of 38]
    by (simp add: demo_tail demo_archive_length)
  show "mtf_write_file demo_env (demo_at k) p t 1 108 =
     (Ok (), demo_at 109, t(p \<mapsto> File (file_bytes t p @ [0x21])))"
    using demo_write_file [of 1 108 k p t] demo_drop [of 39]
    by (simp add: demo_tail demo_archive_length)
qed

lemma demo_decompress_b:
  "mtf_decompress_write_file demo_env (demo_at 83) p t 8 =
     (Ok (), demo_at 92, t(p \<mapsto> File (file_bytes t p @ [1, 2, 3, 4, 5, 6, 7, 8])))"
proof -
  have pk: "peek (9 * length [[1, 2, 3, 4, 5, 6, 7, 8 :: byte]]) (demo_at 83) =
      all_set_chunks [[1, 2, 3, 4, 5, 6, 7, 8]]"
    using demo_drop [of 14] by (simp add: demo_peek demo_tail all_set_chunks_def)
  have "mtf_decompress_write_file demo_env (demo_at 83) p t 8 =
      (Ok (), skip (9 * length [[1, 2, 3, 4, 5, 6, 7, 8 :: byte]]) (demo_at 83),
       t(p \<mapsto> File (file_bytes t p @ concat [[1, 2, 3, 4, 5, 6, 7, 8]])))"
    using pk by (intro decompress_all_set) (simp_all add: demo_env_def)
  then show ?thesis by (simp add: demo_at_skip)
qed

lemma demo_decompress_c:
  "mtf_decompress_write_file demo_env (demo_at 104) p t 1 = (Failed SizeMismatch, demo_at 107, t)"
proof -
  let ?st = "init_dstate demo_env (demo_at 104) 1"
  let ?st1 = "?st\<lparr>inp := skip 1 (inp ?st)\<rparr>"
  let ?st2 = "copy_run (unat (drop_bit 10 (5 :: uint16_t)) + 3) (uint ((5 :: uint16_t) AND 0x3FF))
                (?st1\<lparr>inp := skip 2 (inp ?st1)\<rparr>)"
  have left: "bytesLeft ?st = 1" by (simp add: init_dstate_def)
  have p1: "peek 1 (inp ?st) = [0]"
    using demo_drop [of 35] by (simp add: init_dstate_def demo_peek demo_tail)
  have p2: "peek 2 (inp ?st1) = [5, 0]"
    using demo_drop [of 36] by (simp add: init_dstate_def demo_peek demo_tail demo_at_skip)
  have w: "(5 :: uint16_t) = le_word [5, 0]" by (simp add: le_word_def le_nat_def)
  have cnt: "unat (drop_bit 10 (5 :: uint16_t)) + 3 = 3" by (simp add: drop_bit_eq_div)
  have "bytesLeft ?st2 = int32 (bytesLeft (?st1\<lparr>inp := skip 2 (inp ?st1)\<rparr>) - int 3)"
    unfolding cnt by (rule copy_run_bytesLeft) simp
  then have neg: "bytesLeft ?st2 < 0" by (simp add: left int32_id)
  have bl: "bits_loop 0 0 ?st1 = (Some SizeMismatch, ?st2)"
    using bits_loop_backref [of 0 0 ?st1 5 0 5, OF _ _ p2 w] neg by (simp add: Let_def)
  have dl: "decode_loop ?st = (Some SizeMismatch, ?st2)"
    using decode_loop_step [of ?st 0, OF _ p1] left bl by simp
  have i: "inp ?st2 = demo_at 107" by (simp add: init_dstate_def demo_at_skip)
  have m: "malloc_ok demo_env (unat (1 :: uint32_t))" by (simp add: demo_env_def)
  show ?thesis
    unfolding mtf_decompress_write_file_def using m dl i by simp
qed

text \<open>The output paths \<open>out/a\<close> to \<open>out/e\<close>.\<close>

definition out_file :: "byte \<Rightarrow> cstring" where
  "out_file c = [0x6F, 0x75, 0x74, 0x2F, c]"

lemma demo_extraction_path:
  "c \<noteq> 0 \<Longrightarrow> c \<noteq> 0x5C \<Longrightarrow> c < 128 \<Longrightarrow>
   extraction_path demo_path (entry_of c off sz) = out_file c"
  by (simp add: extraction_path_def demo_path_def entry_of_def entry_name_def c_str_def
      MTF_MAX_PATH_LEN_def slash_def backslash_def mtf_fix_filepath_map out_file_def)

text \<open>The output file system with the directory \<open>out\<close> and the files written so far.\<close>

definition out_dir :: fs where
  "out_dir = no_files(demo_path \<mapsto> Dir)"

lemma make_path_out_file:
  "c \<noteq> 0x2F \<Longrightarrow> c \<noteq> 0x5C \<Longrightarrow> t demo_path = None \<or> t demo_path = Some Dir \<Longrightarrow>
   mtf_make_path t (out_file c) = (Ok (), t(demo_path \<mapsto> Dir))"
  by (auto simp: mtf_make_path_def MTF_MAX_PATH_LEN_def out_file_def make_path_loop.simps
      slash_def backslash_def mtf_make_directory_def stat_def mkdir_def parent_ok_def dirname_def
      demo_path_def fun_upd_idem)

lemma fopen_out_file:
  "c \<noteq> 0x2F \<Longrightarrow> t demo_path = Some Dir \<Longrightarrow> t (out_file c) \<noteq> Some Dir \<Longrightarrow>
   fopen_wb t (out_file c) = Some (t(out_file c \<mapsto> File []))"
  by (simp add: fopen_wb_def out_file_def parent_ok_def dirname_def slash_def demo_path_def)




text \<open>
  The output file system that has the directory \<open>out\<close> and in it the given files, named
  by one letter each.
\<close>

definition out_fs :: "(byte \<times> byte list) list \<Rightarrow> fs" where
  "out_fs files = foldl (\<lambda>t (c, d). t(out_file c \<mapsto> File d)) (no_files(demo_path \<mapsto> Dir)) files"

lemma out_fs_snoc: "out_fs (files @ [(c, d)]) = (out_fs files)(out_file c \<mapsto> File d)"
  by (simp add: out_fs_def)

lemma out_fs_dir: "out_fs files demo_path = Some Dir"
proof (induction files rule: rev_induct)
  case Nil
  then show ?case by (simp add: out_fs_def)
next
  case (snoc x files)
  then show ?case by (cases x) (simp add: out_fs_snoc out_file_def demo_path_def)
qed

lemma out_fs_file: "out_fs files (out_file c) \<noteq> Some Dir"
proof (induction files rule: rev_induct)
  case Nil
  then show ?case by (simp add: out_fs_def out_file_def demo_path_def no_files_def)
next
  case (snoc x files)
  then show ?case by (cases x) (simp add: out_fs_snoc)
qed

lemma demo_extract_entry:
  assumes hdr: "mtf_read_compressed_header demo_env (demo_at k) off = (True, demo_at k1, h)"
    and c: "c \<noteq> 0" "c \<noteq> 0x5C" "c \<noteq> 0x2F" "c < 128"
    and t: "t(demo_path \<mapsto> Dir) = out_fs files"
    and d: "t demo_path = None \<or> t demo_path = Some Dir"
  shows "extract_entry demo_env demo_path (entry_of c off sz) (demo_at k) t =
           payload_result
             (if mtf_is_compressed h
              then mtf_decompress_write_file demo_env (demo_at k1) (out_file c)
                     ((out_fs files)(out_file c \<mapsto> File [])) sz
              else mtf_write_file demo_env (demo_at k1) (out_file c)
                     ((out_fs files)(out_file c \<mapsto> File [])) sz off)"
proof -
  let ?e = "entry_of c off sz"
  have p: "extraction_path demo_path ?e = out_file c" using c by (intro demo_extraction_path)
  have hdr': "mtf_read_compressed_header demo_env (demo_at k) (dataOffset ?e) = (True, demo_at k1, h)"
    using hdr by (simp add: entry_of_def)
  have mk: "mtf_make_path t (extraction_path demo_path ?e) = (Ok (), out_fs files)"
    unfolding p using make_path_out_file [of c t] c(3,2) d t by simp
  have op: "fopen_wb (out_fs files) (extraction_path demo_path ?e) =
      Some ((out_fs files)(out_file c \<mapsto> File []))"
    unfolding p using c(3) out_fs_dir out_fs_file by (rule fopen_out_file)
  have f: "decompressedSize ?e = sz" "dataOffset ?e = off" by (simp_all add: entry_of_def)
  show ?thesis
    using extract_entry_payload [OF hdr' mk op] unfolding p f .
qed


lemma file_bytes_new [simp]: "file_bytes (t(p \<mapsto> File d)) p = d"
  by (simp add: file_bytes_def)

lemma demo_entry_a:
  assumes "t(demo_path \<mapsto> Dir) = out_fs files" "t demo_path = None \<or> t demo_path = Some Dir"
  shows "extract_entry demo_env demo_path (entry_of 0x61 69 2) (demo_at k) t =
           (Ok True, demo_at 71, out_fs (files @ [(0x61, [0x10, 0x11])]))"
  using demo_extract_entry [where c = "0x61" and sz = 2, OF demo_header_a _ _ _ _ assms]
  by (simp add: mtf_is_compressed_def demo_raw_copy out_fs_snoc)

lemma demo_entry_b:
  assumes "t(demo_path \<mapsto> Dir) = out_fs files" "t demo_path = None \<or> t demo_path = Some Dir"
  shows "extract_entry demo_env demo_path (entry_of 0x62 71 8) (demo_at k) t =
           (Ok True, demo_at 92, out_fs (files @ [(0x62, [1, 2, 3, 4, 5, 6, 7, 8])]))"
  using demo_extract_entry [where c = "0x62" and sz = 8, OF demo_header_b _ _ _ _ assms]
  by (simp add: mtf_is_compressed_def demo_decompress_b out_fs_snoc)

lemma demo_entry_c:
  assumes "t(demo_path \<mapsto> Dir) = out_fs files" "t demo_path = None \<or> t demo_path = Some Dir"
  shows "extract_entry demo_env demo_path (entry_of 0x63 92 1) (demo_at k) t =
           (Ok False, demo_at 107, out_fs (files @ [(0x63, [])]))"
  using demo_extract_entry [where c = "0x63" and sz = 1, OF demo_header_c _ _ _ _ assms]
  by (simp add: mtf_is_compressed_def demo_decompress_c out_fs_snoc)

lemma demo_entry_d:
  assumes "t(demo_path \<mapsto> Dir) = out_fs files" "t demo_path = None \<or> t demo_path = Some Dir"
  shows "extract_entry demo_env demo_path (entry_of 0x64 107 1) (demo_at k) t =
           (Ok True, demo_at 108, out_fs (files @ [(0x64, [0x20])]))"
  using demo_extract_entry [where c = "0x64" and sz = 1, OF demo_header_d _ _ _ _ assms]
  by (simp add: mtf_is_compressed_def demo_raw_copy out_fs_snoc)

lemma demo_entry_e:
  assumes "t(demo_path \<mapsto> Dir) = out_fs files" "t demo_path = None \<or> t demo_path = Some Dir"
  shows "extract_entry demo_env demo_path (entry_of 0x65 108 1) (demo_at k) t =
           (Ok True, demo_at 109, out_fs (files @ [(0x65, [0x21])]))"
  using demo_extract_entry [where c = "0x65" and sz = 1, OF demo_header_e _ _ _ _ assms]
  by (simp add: mtf_is_compressed_def demo_raw_copy out_fs_snoc)

lemma out_fs_start:
  "no_files(demo_path \<mapsto> Dir) = out_fs []" "no_files demo_path = None \<or> no_files demo_path = Some Dir"
  "(out_fs files)(demo_path \<mapsto> Dir) = out_fs files"
  "out_fs files demo_path = None \<or> out_fs files demo_path = Some Dir"
  using out_fs_dir [of files] by (simp_all add: out_fs_def no_files_def fun_upd_idem)

lemmas demo_entry_first =
  demo_entry_a [OF out_fs_start(1,2)] demo_entry_b [OF out_fs_start(1,2)]
  demo_entry_c [OF out_fs_start(1,2)] demo_entry_d [OF out_fs_start(1,2)]
  demo_entry_e [OF out_fs_start(1,2)]

lemmas demo_entry_next =
  demo_entry_a [OF out_fs_start(3,4)] demo_entry_b [OF out_fs_start(3,4)]
  demo_entry_c [OF out_fs_start(3,4)] demo_entry_d [OF out_fs_start(3,4)]
  demo_entry_e [OF out_fs_start(3,4)]

lemma demo_extract_all:
  "cap \<le> 0 \<Longrightarrow>
   extract_entries demo_env demo_path cap demo_sorted (demo_at 69) no_files 0 =
     (Ok 4, demo_at 109,
      out_fs [(0x61, [0x10, 0x11]), (0x62, [1, 2, 3, 4, 5, 6, 7, 8]), (0x63, []),
              (0x64, [0x20]), (0x65, [0x21])])"
  by (simp add: demo_sorted_def demo_entry_first demo_entry_next int32_id)

lemma demo_extract_two:
  "extract_entries demo_env demo_path 2 demo_sorted (demo_at 69) no_files 0 =
     (Ok 2, demo_at 92, out_fs [(0x61, [0x10, 0x11]), (0x62, [1, 2, 3, 4, 5, 6, 7, 8])])"
  by (simp add: demo_sorted_def demo_entry_first demo_entry_next int32_id)

lemma mtf_read_compressed_header_fpos:
  assumes "mtf_read_compressed_header env f off = (ok, f1, h)" "seekable f"
    "unat off + 12 \<le> length (content f)"
  shows "fpos f1 = unat off + 12"
proof -
  from assms(1) have "f1 = snd (fread_bytes 12 (snd (fseek_set (unat off) f)))"
    by (auto simp: mtf_read_compressed_header_def split: prod.splits)
  then show ?thesis using assms(2,3) by (simp add: fread_bytes_def fseek_set_def Let_def)
qed

lemma extract_entry_raw_result:
  assumes hdr: "mtf_read_compressed_header env f (dataOffset e) = (True, f1, h)"
    and raw: "\<not> mtf_is_compressed h"
    and op: "fopen_wb (snd (mtf_make_path t (extraction_path dest e))) (extraction_path dest e)
               = Some t2"
    and env: "malloc_ok env (unat (decompressedSize e))"
      "fwrite_ok env (extraction_path dest e) (unat (decompressedSize e))"
    and f: "seekable f" "unat (decompressedSize e) \<le> length (content f) - unat (dataOffset e)"
  shows "extract_entry env dest e f t =
           (Ok True, f1\<lparr>fpos := unat (dataOffset e) + unat (decompressedSize e)\<rparr>,
            t2(extraction_path dest e \<mapsto>
                 File (take (unat (decompressedSize e)) (drop (unat (dataOffset e)) (content f)))))"
proof -
  let ?p = "extraction_path dest e"
  obtain made t1 where mk: "mtf_make_path t ?p = (made, t1)" by (cases "mtf_make_path t ?p")
  from op mk have t2: "fopen_wb t1 ?p = Some t2" by simp
  note c = mtf_read_compressed_header_stream(1,2,3) [OF hdr]
  have fb: "file_bytes t2 ?p = []" using fopen_wb_SomeD [OF t2] by simp
  have "mtf_write_file env f1 ?p t2 (decompressedSize e) (dataOffset e) =
      (Ok (), f1\<lparr>fpos := unat (dataOffset e) + unat (decompressedSize e)\<rparr>,
       t2(?p \<mapsto> File (file_bytes t2 ?p @
          take (unat (decompressedSize e)) (drop (unat (dataOffset e)) (content f1)))))"
    unfolding mtf_write_file_Ok_iff using env f c by simp
  with extract_entry_payload [OF hdr mk t2] raw show ?thesis by (simp add: fb c)
qed

text \<open>
  Claim C6. The header read at the data offset of an entry classifies it as compressed
  exactly when its first byte is \<open>0xAE\<close> or \<open>0xAF\<close> and its second byte is \<open>0xBE\<close>; these
  are the two bytes of the archive at the data offset. For any other pair the entry is
  copied: the copy seeks to the data offset again, so the twelve bytes read for the header
  are part of what is copied, the output file holds the \<open>decompressedSize\<close> bytes of the
  archive from the data offset on, and the stream stands behind them. A compressed entry
  goes to the decompressor, which reads on behind the header.
\<close>

theorem raw_entry_is_copied_verbatim:
  "mtf_is_compressed h = ((magic1 h = 0xAE \<or> magic1 h = 0xAF) \<and> magic2 h = 0xBE)
   \<and> (seekable f \<and> unat (dataOffset e) + 2 \<le> length (content f) \<and>
        mtf_read_compressed_header env f (dataOffset e) = (ok, f1, h) \<longrightarrow>
        magic1 h = content f ! unat (dataOffset e) \<and>
        magic2 h = content f ! (unat (dataOffset e) + 1))
   \<and> (mtf_read_compressed_header env f (dataOffset e) = (ok, f1, h) \<and>
        \<not> mtf_is_compressed h \<and> extract_entry env dest e f t = (Ok True, f', t') \<longrightarrow>
        file_bytes t' (extraction_path dest e) =
          take (unat (decompressedSize e)) (drop (unat (dataOffset e)) (content f)) \<and>
        length (file_bytes t' (extraction_path dest e)) = unat (decompressedSize e) \<and>
        fpos f' = unat (dataOffset e) + unat (decompressedSize e))
   \<and> (mtf_read_compressed_header env f (dataOffset e) = (True, f1, h) \<and>
        \<not> mtf_is_compressed h \<and>
        fopen_wb (snd (mtf_make_path t (extraction_path dest e))) (extraction_path dest e) =
          Some t2 \<and>
        malloc_ok env (unat (decompressedSize e)) \<and>
        fwrite_ok env (extraction_path dest e) (unat (decompressedSize e)) \<and>
        seekable f \<and> unat (decompressedSize e) \<le> length (content f) - unat (dataOffset e) \<longrightarrow>
        extract_entry env dest e f t =
          (Ok True, f1\<lparr>fpos := unat (dataOffset e) + unat (decompressedSize e)\<rparr>,
           t2(extraction_path dest e \<mapsto>
                File (take (unat (decompressedSize e))
                        (drop (unat (dataOffset e)) (content f))))))
   \<and> (mtf_read_compressed_header env f (dataOffset e) = (True, f1, h) \<and>
        mtf_is_compressed h \<and>
        fopen_wb (snd (mtf_make_path t (extraction_path dest e))) (extraction_path dest e) =
          Some t2 \<longrightarrow>
        (extract_entry env dest e f t = (Ok True, f', t')) =
          (mtf_decompress_write_file env f1 (extraction_path dest e) t2 (decompressedSize e) =
             (Ok (), f', t')) \<and>
        (seekable f \<and> unat (dataOffset e) + 12 \<le> length (content f) \<longrightarrow>
           fpos f1 = unat (dataOffset e) + 12))"
proof (intro conjI impI; (elim conjE)?)
  show "mtf_is_compressed h = ((magic1 h = 0xAE \<or> magic1 h = 0xAF) \<and> magic2 h = 0xBE)"
    by (rule mtf_is_compressed_iff)
next
  assume a: "seekable f" "unat (dataOffset e) + 2 \<le> length (content f)"
    "mtf_read_compressed_header env f (dataOffset e) = (ok, f1, h)"
  show "magic1 h = content f ! unat (dataOffset e)"
    "magic2 h = content f ! (unat (dataOffset e) + 1)"
    by (rule mtf_read_compressed_header_magic [OF a])+
next
  assume a: "mtf_read_compressed_header env f (dataOffset e) = (ok, f1, h)"
    "\<not> mtf_is_compressed h" "extract_entry env dest e f t = (Ok True, f', t')"
  note r = extract_entry_raw_Ok [OF a]
  show "file_bytes t' (extraction_path dest e) =
      take (unat (decompressedSize e)) (drop (unat (dataOffset e)) (content f))"
    by (rule r(1))
  show "length (file_bytes t' (extraction_path dest e)) = unat (decompressedSize e)"
    unfolding r(1) using r(2) by simp
  show "fpos f' = unat (dataOffset e) + unat (decompressedSize e)" by (rule r(3))
next
  assume "mtf_read_compressed_header env f (dataOffset e) = (True, f1, h)"
    "\<not> mtf_is_compressed h"
    "fopen_wb (snd (mtf_make_path t (extraction_path dest e))) (extraction_path dest e) = Some t2"
    "malloc_ok env (unat (decompressedSize e))"
    "fwrite_ok env (extraction_path dest e) (unat (decompressedSize e))"
    "seekable f" "unat (decompressedSize e) \<le> length (content f) - unat (dataOffset e)"
  then show "extract_entry env dest e f t =
      (Ok True, f1\<lparr>fpos := unat (dataOffset e) + unat (decompressedSize e)\<rparr>,
       t2(extraction_path dest e \<mapsto>
            File (take (unat (decompressedSize e)) (drop (unat (dataOffset e)) (content f)))))"
    by (rule extract_entry_raw_result)
next
  assume a: "mtf_read_compressed_header env f (dataOffset e) = (True, f1, h)"
    "mtf_is_compressed h"
    "fopen_wb (snd (mtf_make_path t (extraction_path dest e))) (extraction_path dest e) = Some t2"
  let ?p = "extraction_path dest e"
  obtain made t1 where mk: "mtf_make_path t ?p = (made, t1)" by (cases "mtf_make_path t ?p")
  from a(3) mk have t2: "fopen_wb t1 ?p = Some t2" by simp
  show "(extract_entry env dest e f t = (Ok True, f', t')) =
      (mtf_decompress_write_file env f1 ?p t2 (decompressedSize e) = (Ok (), f', t'))"
    using extract_entry_payload [OF a(1) mk t2] a(2) by (simp add: payload_result_True)
next
  assume "mtf_read_compressed_header env f (dataOffset e) = (True, f1, h)"
    "seekable f" "unat (dataOffset e) + 12 \<le> length (content f)"
  then show "fpos f1 = unat (dataOffset e) + 12"
    by (rule mtf_read_compressed_header_fpos)
qed


theorem raw_entry_is_copied_verbatim_witness:
  "mtf_is_compressed
     \<lparr>magic1 = 0xAE, magic2 = 0xBE, unknown = 0, compressedSize = 21, headerSize = 8\<rparr> = True
   \<and> mtf_is_compressed
       \<lparr>magic1 = 0x10, magic2 = 0x11, unknown = 0xBEAE, compressedSize = 0x150000,
        headerSize = 0x80000\<rparr> = False
   \<and> content (demo_at 69) ! 69 = 0x10 \<and> content (demo_at 69) ! 70 = 0x11
   \<and> file_bytes (out_fs [(0x61, [0x10, 0x11])]) (out_file 0x61) = take 2 (drop 69 demo_archive)
   \<and> length (file_bytes (out_fs [(0x61, [0x10, 0x11])]) (out_file 0x61)) = 2
   \<and> extract_entry demo_env demo_path (entry_of 0x61 69 2) (demo_at 69) no_files =
       (Ok True, demo_at 71, (out_fs [])(out_file 0x61 \<mapsto> File (take 2 (drop 69 demo_archive))))
   \<and> (extract_entry demo_env demo_path (entry_of 0x62 71 8) (demo_at 71)
          (out_fs [(0x61, [0x10, 0x11])]) =
        (Ok True, demo_at 92, out_fs [(0x61, [0x10, 0x11]), (0x62, [1, 2, 3, 4, 5, 6, 7, 8])])) =
       (mtf_decompress_write_file demo_env (demo_at 83) (out_file 0x62)
          ((out_fs [(0x61, [0x10, 0x11])])(out_file 0x62 \<mapsto> File [])) 8 =
        (Ok (), demo_at 92, out_fs [(0x61, [0x10, 0x11]), (0x62, [1, 2, 3, 4, 5, 6, 7, 8])]))
   \<and> fpos (demo_at 83) = 83"
proof -
  let ?ha = "\<lparr>magic1 = 0x10, magic2 = 0x11, unknown = 0xBEAE, compressedSize = 0x150000,
              headerSize = 0x80000 :: uint32_t\<rparr>"
  let ?hb = "\<lparr>magic1 = 0xAE, magic2 = 0xBE, unknown = 0, compressedSize = 21,
              headerSize = 8 :: uint32_t\<rparr>"
  let ?a = "entry_of 0x61 69 2"
  let ?b = "entry_of 0x62 71 8"
  let ?ta = "out_fs [(0x61, [0x10, 0x11])]"
  let ?tb = "out_fs [(0x61, [0x10, 0x11]), (0x62, [1, 2, 3, 4, 5, 6, 7, 8])]"
  let ?t2a = "(out_fs [])(out_file 0x61 \<mapsto> File [])"
  let ?t2b = "?ta(out_file 0x62 \<mapsto> File [])"
  note A = raw_entry_is_copied_verbatim [where h = "?ha" and e = "?a" and f = "demo_at 69"
      and env = demo_env and dest = demo_path and t = no_files and ok = True
      and ?f1.0 = "demo_at 81" and f' = "demo_at 71" and t' = "?ta" and ?t2.0 = "?t2a"]
  note B = raw_entry_is_copied_verbatim [where h = "?hb" and e = "?b" and f = "demo_at 71"
      and env = demo_env and dest = demo_path and t = "?ta" and ok = True
      and ?f1.0 = "demo_at 83" and f' = "demo_at 92" and t' = "?tb" and ?t2.0 = "?t2b"]
  have off: "dataOffset ?a = 69" "decompressedSize ?a = 2" "dataOffset ?b = 71"
    "decompressedSize ?b = 8"
    by (simp_all add: entry_of_def)
  have pa: "extraction_path demo_path ?a = out_file 0x61"
    and pb: "extraction_path demo_path ?b = out_file 0x62"
    by (simp_all add: demo_extraction_path)
  have ha: "mtf_read_compressed_header demo_env (demo_at 69) (dataOffset ?a) = (True, demo_at 81, ?ha)"
    unfolding off by (rule demo_header_a)
  have hb: "mtf_read_compressed_header demo_env (demo_at 71) (dataOffset ?b) = (True, demo_at 83, ?hb)"
    unfolding off by (rule demo_header_b)
  have c1: "mtf_is_compressed ?hb = True" using B [THEN conjunct1] by simp
  have c1': "mtf_is_compressed ?ha = False" using A [THEN conjunct1] by simp
  have h2: "seekable (demo_at 69) \<and> unat (dataOffset ?a) + 2 \<le> length (content (demo_at 69)) \<and>
      mtf_read_compressed_header demo_env (demo_at 69) (dataOffset ?a) = (True, demo_at 81, ?ha)"
    using ha by (simp add: off demo_archive_length)
  have c2: "content (demo_at 69) ! 69 = 0x10 \<and> content (demo_at 69) ! 70 = 0x11"
    using mp [OF A [THEN conjunct2, THEN conjunct1] h2] by (simp add: off)
  have ea: "extract_entry demo_env demo_path ?a (demo_at 69) no_files = (Ok True, demo_at 71, ?ta)"
    using demo_entry_first(1) [of 69] by simp
  have h3: "mtf_read_compressed_header demo_env (demo_at 69) (dataOffset ?a) = (True, demo_at 81, ?ha) \<and>
      \<not> mtf_is_compressed ?ha \<and>
      extract_entry demo_env demo_path ?a (demo_at 69) no_files = (Ok True, demo_at 71, ?ta)"
    using ha c1' ea by simp
  note r3 = mp [OF A [THEN conjunct2, THEN conjunct2, THEN conjunct1] h3]
  have c3: "file_bytes ?ta (out_file 0x61) = take 2 (drop 69 demo_archive)"
    using r3 [THEN conjunct1] by (simp add: pa off)
  have c3': "length (file_bytes ?ta (out_file 0x61)) = 2"
    using r3 [THEN conjunct2, THEN conjunct1] by (simp add: pa off)
  have mka: "mtf_make_path no_files (out_file 0x61) = (Ok (), out_fs [])"
    using make_path_out_file [of "0x61" no_files] out_fs_start(1,2) by simp
  have opa: "fopen_wb (out_fs []) (out_file 0x61) = Some ?t2a"
    using fopen_out_file [of "0x61" "out_fs []"] out_fs_dir [of "[]"] out_fs_file [of "[]" "0x61"]
    by simp
  have h4: "mtf_read_compressed_header demo_env (demo_at 69) (dataOffset ?a) = (True, demo_at 81, ?ha) \<and>
      \<not> mtf_is_compressed ?ha \<and>
      fopen_wb (snd (mtf_make_path no_files (extraction_path demo_path ?a)))
        (extraction_path demo_path ?a) = Some ?t2a \<and>
      malloc_ok demo_env (unat (decompressedSize ?a)) \<and>
      fwrite_ok demo_env (extraction_path demo_path ?a) (unat (decompressedSize ?a)) \<and>
      seekable (demo_at 69) \<and>
      unat (decompressedSize ?a) \<le> length (content (demo_at 69)) - unat (dataOffset ?a)"
    using ha c1' by (simp add: pa mka opa off demo_archive_length) (simp add: demo_env_def)
  have c4: "extract_entry demo_env demo_path ?a (demo_at 69) no_files =
      (Ok True, demo_at 71, (out_fs [])(out_file 0x61 \<mapsto> File (take 2 (drop 69 demo_archive))))"
    using mp [OF A [THEN conjunct2, THEN conjunct2, THEN conjunct2, THEN conjunct1] h4] by (simp add: pa off)
  have mkb: "mtf_make_path ?ta (out_file 0x62) = (Ok (), ?ta)"
    using make_path_out_file [of "0x62" "?ta"] out_fs_start(3,4) [of "[(0x61, [0x10, 0x11])]"]
    by simp
  have opb: "fopen_wb ?ta (out_file 0x62) = Some ?t2b"
    using fopen_out_file [of "0x62" "?ta"] out_fs_dir [of "[(0x61, [0x10, 0x11])]"]
      out_fs_file [of "[(0x61, [0x10, 0x11])]" "0x62"]
    by simp
  have h5: "mtf_read_compressed_header demo_env (demo_at 71) (dataOffset ?b) = (True, demo_at 83, ?hb) \<and>
      mtf_is_compressed ?hb \<and>
      fopen_wb (snd (mtf_make_path ?ta (extraction_path demo_path ?b)))
        (extraction_path demo_path ?b) = Some ?t2b"
    using hb c1 by (simp add: pb mkb opb)
  note r5 = mp [OF B [THEN conjunct2, THEN conjunct2, THEN conjunct2, THEN conjunct2] h5]
  have c5: "(extract_entry demo_env demo_path ?b (demo_at 71) ?ta = (Ok True, demo_at 92, ?tb)) =
      (mtf_decompress_write_file demo_env (demo_at 83) (out_file 0x62) ?t2b 8 =
        (Ok (), demo_at 92, ?tb))"
    using r5 [THEN conjunct1] by (simp add: pb off)
  have h5': "seekable (demo_at 71) \<and> unat (dataOffset ?b) + 12 \<le> length (content (demo_at 71))"
    by (simp add: off demo_archive_length)
  have c5': "fpos (demo_at 83) = 83"
    using mp [OF r5 [THEN conjunct2] h5'] by (simp add: off)
  show ?thesis using c1 c1' c2 c3 c3' c4 c5 c5' by simp
qed

section \<open>Paths of the output files\<close>

lemma make_path_loop_leading_separator:
  assumes "p \<noteq> []" "hd p = slash \<or> hd p = backslash"
  shows "make_path_loop t p 0 = (Some MkdirFailed, t)"
proof -
  from assms obtain c q where p: "p = c # q" "c = slash \<or> c = backslash" by (cases p) auto
  have md: "mtf_make_directory t [] = (Some MkdirFailed, t)"
    by (simp add: mtf_make_directory_def stat_def mkdir_def)
  show ?thesis
    unfolding p(1) by (subst make_path_loop.simps) (use p(2) md in auto)
qed

lemma mtf_make_path_leading_separator:
  assumes "length p < MTF_MAX_PATH_LEN" "p \<noteq> []" "hd p = slash \<or> hd p = backslash"
  shows "mtf_make_path t p = (Failed MkdirFailed, t)"
  using assms(1) make_path_loop_leading_separator [OF assms(2,3)]
  by (simp add: mtf_make_path_def)

text \<open>
  The name \<^verbatim>\<open>A\B\E.txt\<close> with an acute accent on the \<^verbatim>\<open>E\<close>, which is the byte \<open>0xC9\<close>
  in the code page of the game, an entry of that name whose data
  are the two bytes of entry a of the demonstration archive, the paths \<^verbatim>\<open>out/A/B/?.txt\<close>
  and \<^verbatim>\<open>/out/A/B/?.txt\<close>, and the directories on the way.
\<close>

definition accent_name :: "byte list" where
  "accent_name = [0x41, 0x5C, 0x42, 0x5C, 0xC9, 0x2E, 0x74, 0x78, 0x74]"

definition accent_entry :: mtf_file_entry where
  "accent_entry =
     \<lparr>filename = Some accent_name, filenameLength = 9, dataOffset = 69, decompressedSize = 2\<rparr>"

definition rel_path :: cstring where
  "rel_path = [0x6F, 0x75, 0x74, 0x2F, 0x41, 0x2F, 0x42, 0x2F, 0x3F, 0x2E, 0x74, 0x78, 0x74]"

definition rel_A :: cstring where
  "rel_A = [0x6F, 0x75, 0x74, 0x2F, 0x41]"

definition rel_AB :: cstring where
  "rel_AB = [0x6F, 0x75, 0x74, 0x2F, 0x41, 0x2F, 0x42]"

definition abs_root :: cstring where
  "abs_root = [0x2F, 0x6F, 0x75, 0x74]"

definition abs_A :: cstring where
  "abs_A = [0x2F, 0x6F, 0x75, 0x74, 0x2F, 0x41]"

definition abs_path :: cstring where
  "abs_path = [0x2F, 0x6F, 0x75, 0x74, 0x2F, 0x41, 0x2F, 0x42, 0x2F, 0x3F, 0x2E, 0x74, 0x78, 0x74]"

lemmas path_eval =
  mtf_make_path_def MTF_MAX_PATH_LEN_def make_path_loop.simps mtf_make_directory_def
  stat_def mkdir_def parent_ok_def dirname_def slash_def backslash_def qmark_def
  rel_path_def rel_A_def rel_AB_def abs_root_def abs_A_def abs_path_def demo_path_def
  no_files_def fopen_wb_def

lemma accent_paths:
  "mtf_fix_filepath accent_name = [0x41, 0x2F, 0x42, 0x2F, 0x3F, 0x2E, 0x74, 0x78, 0x74]"
  "extraction_path demo_path accent_entry = rel_path"
  "extraction_path abs_root accent_entry = abs_path"
  by (simp_all add: extraction_path_def accent_entry_def accent_name_def entry_name_def c_str_def
      mtf_fix_filepath_map path_eval)

lemma rel_make_path:
  "mtf_make_path no_files rel_path =
     (Ok (), no_files(demo_path \<mapsto> Dir, rel_A \<mapsto> Dir, rel_AB \<mapsto> Dir))"
  by (simp add: path_eval)


text \<open>
  Three output file systems: the one that has the directories \<open>out\<close>, \<open>out/A\<close> and
  \<open>out/A/B\<close>, one in which \<open>out/A\<close> is a plain file, and one that has the directory
  \<open>/out\<close> only.
\<close>

definition dirs_fs :: fs where
  "dirs_fs = no_files(demo_path \<mapsto> Dir, rel_A \<mapsto> Dir, rel_AB \<mapsto> Dir)"

definition collision_fs :: fs where
  "collision_fs = no_files(demo_path \<mapsto> Dir, rel_A \<mapsto> File [0x58])"

definition abs_fs :: fs where
  "abs_fs = no_files(abs_root \<mapsto> Dir)"

lemma accent_header:
  "mtf_read_compressed_header demo_env (demo_at 69) (dataOffset accent_entry) =
     (True, demo_at 81,
      \<lparr>magic1 = 0x10, magic2 = 0x11, unknown = 0xBEAE, compressedSize = 0x150000,
       headerSize = 0x80000\<rparr>)"
  using demo_header_a [of 69] by (simp add: accent_entry_def)

text \<open>
  Claim C8 holds for a destination that is a relative path: the name with the accent becomes
  \<^verbatim>\<open>A/B/?.txt\<close> under the destination \<open>out\<close>, the directories \<open>out\<close>, \<open>out/A\<close> and
  \<open>out/A/B\<close> are made, directories that exist are no error, \<^verbatim>\<open>mtf_make_path\<close> reports a
  plain file \<open>out/A\<close> with the error of kind \<open>FormatError\<close>, and the entry is extracted.
  For a destination with a leading separator, here the existing directory \<open>/out\<close>,
  \<^verbatim>\<open>mtf_make_path\<close> cuts the path at its first character and asks for the directory with the
  empty name; \<^verbatim>\<open>stat\<close> and \<^verbatim>\<open>mkdir\<close> fail for it, \<^verbatim>\<open>mtf_make_path\<close> returns false and has
  made no directory. The caller does not test that result: \<^verbatim>\<open>fopen\<close> then fails, \<open>/out/A\<close>
  not being there, and the whole call ends with the error of the output file. In the
  same way the error for the plain file \<open>out/A\<close> is replaced by the error of the output
  file, of kind \<open>IoError\<close>.
\<close>

theorem leading_separator_creates_no_directory:
  "mtf_fix_filepath accent_name = [0x41, 0x2F, 0x42, 0x2F, 0x3F, 0x2E, 0x74, 0x78, 0x74]
   \<and> extraction_path demo_path accent_entry = rel_path
   \<and> mtf_make_path no_files rel_path = (Ok (), dirs_fs)
   \<and> mtf_make_path dirs_fs rel_path = (Ok (), dirs_fs)
   \<and> mtf_make_path collision_fs rel_path = (Failed PathIsFile, collision_fs)
   \<and> kind_of PathIsFile = FormatError
   \<and> extract_entry demo_env demo_path accent_entry (demo_at 69) no_files =
       (Ok True, demo_at 71, dirs_fs(rel_path \<mapsto> File [0x10, 0x11]))
   \<and> extraction_path abs_root accent_entry = abs_path
   \<and> mtf_make_path abs_fs abs_path = (Failed MkdirFailed, abs_fs)
   \<and> abs_fs abs_A = None
   \<and> fopen_wb abs_fs abs_path = None
   \<and> extract_entry demo_env abs_root accent_entry (demo_at 69) abs_fs =
       (Failed CantCreateOutput, demo_at 81, abs_fs)
   \<and> extract_entry demo_env demo_path accent_entry (demo_at 69) collision_fs =
       (Failed CantCreateOutput, demo_at 81, collision_fs)
   \<and> kind_of CantCreateOutput = IoError"
proof -
  have mk1: "mtf_make_path no_files rel_path = (Ok (), dirs_fs)"
    by (simp add: path_eval dirs_fs_def)
  have mk2: "mtf_make_path dirs_fs rel_path = (Ok (), dirs_fs)"
    by (simp add: path_eval dirs_fs_def)
  have mk3: "mtf_make_path collision_fs rel_path = (Failed PathIsFile, collision_fs)"
    by (simp add: path_eval collision_fs_def)
  have mk4: "mtf_make_path abs_fs abs_path = (Failed MkdirFailed, abs_fs)"
    by (rule mtf_make_path_leading_separator) (simp_all add: path_eval)
  have none: "abs_fs abs_A = None" by (simp add: abs_fs_def path_eval)
  have op1: "fopen_wb dirs_fs rel_path = Some (dirs_fs(rel_path \<mapsto> File []))"
    by (simp add: path_eval dirs_fs_def)
  have op3: "fopen_wb collision_fs rel_path = None" by (simp add: path_eval collision_fs_def)
  have op4: "fopen_wb abs_fs abs_path = None" by (simp add: path_eval abs_fs_def)
  have raw: "\<not> mtf_is_compressed
      \<lparr>magic1 = 0x10, magic2 = 0x11, unknown = 0xBEAE, compressedSize = 0x150000,
       headerSize = 0x80000 :: uint32_t\<rparr>"
    by (simp add: mtf_is_compressed_def)
  have sz: "decompressedSize accent_entry = 2" "dataOffset accent_entry = 69"
    by (simp_all add: accent_entry_def)
  have e1: "extract_entry demo_env demo_path accent_entry (demo_at 69) no_files =
      (Ok True, demo_at 71, dirs_fs(rel_path \<mapsto> File [0x10, 0x11]))"
    using extract_entry_payload [OF accent_header, of no_files demo_path "Ok ()" dirs_fs
        "dirs_fs(rel_path \<mapsto> File [])"] raw
    by (simp add: accent_paths mk1 op1 sz demo_raw_copy)
  have e4: "extract_entry demo_env abs_root accent_entry (demo_at 69) abs_fs =
      (Failed CantCreateOutput, demo_at 81, abs_fs)"
    by (rule extract_entry_fopen_failed [OF accent_header]) (simp_all add: accent_paths mk4 op4)
  have e3: "extract_entry demo_env demo_path accent_entry (demo_at 69) collision_fs =
      (Failed CantCreateOutput, demo_at 81, collision_fs)"
    by (rule extract_entry_fopen_failed [OF accent_header]) (simp_all add: accent_paths mk3 op3)
  show ?thesis
    using mk1 mk2 mk3 mk4 none op4 e1 e3 e4 by (simp add: accent_paths)
qed

section \<open>The loop over the entries\<close>

text \<open>
  Every entry of a list attempted in turn, whatever the results are: the results, and the
  stream and the output file system behind the last entry. This is what the loop of
  \<^verbatim>\<open>mtf_file_extract_batch\<close> is compared with.
\<close>

fun attempt_all ::
  "os_env \<Rightarrow> cstring \<Rightarrow> mtf_file_entry list \<Rightarrow> in_file \<Rightarrow> fs \<Rightarrow>
     bool outcome list \<times> in_file \<times> fs" where
  "attempt_all env destPath [] f t = ([], f, t)"
| "attempt_all env destPath (entry # rest) f t =
     (case extract_entry env destPath entry f t of
        (r, f', t') \<Rightarrow>
          (case attempt_all env destPath rest f' t' of
             (rs, f'', t'') \<Rightarrow> (r # rs, f'', t'')))"

text \<open>The entries that were extracted, and a run in which each entry was extracted or skipped.\<close>

definition successes :: "bool outcome list \<Rightarrow> int" where
  "successes rs = int (length (filter (\<lambda>r. r = Ok True) rs))"

definition all_done :: "bool outcome list \<Rightarrow> bool" where
  "all_done rs = list_all (\<lambda>r. r = Ok True \<or> r = Ok False) rs"

lemma successes_simps [simp]:
  "successes [] = 0" "successes (Ok True # rs) = 1 + successes rs"
  "successes (Ok False # rs) = successes rs"
  by (simp_all add: successes_def)

lemma successes_bounds: "0 \<le> successes rs" "successes rs \<le> int (length rs)"
  by (simp_all add: successes_def)

lemma all_done_Cons: "all_done (r # rs) = ((r = Ok True \<or> r = Ok False) \<and> all_done rs)"
  by (simp add: all_done_def)

lemma attempt_all_length: "attempt_all env dest es f t = (rs, f', t') \<Longrightarrow> length rs = length es"
  by (induction es arbitrary: f t rs) (auto split: prod.splits)

lemma attempt_all_append:
  "attempt_all env dest (es1 @ es2) f t =
     (case attempt_all env dest es1 f t of
        (rs1, f1, t1) \<Rightarrow>
          (case attempt_all env dest es2 f1 t1 of (rs2, f2, t2) \<Rightarrow> (rs1 @ rs2, f2, t2)))"
  by (induction es1 arbitrary: f t) (auto split: prod.splits)

text \<open>The loop does not stop early: no success makes the count equal to the cap.\<close>

lemma extract_entries_no_stop:
  assumes "attempt_all env dest es f t = (rs, f', t')" "all_done rs"
    and "cap \<le> 0 \<or> n + successes rs < cap"
    and "- (2 ^ 31) \<le> n" "n + successes rs < 2 ^ 31"
  shows "extract_entries env dest cap es f t n = (Ok (n + successes rs), f', t')"
  using assms
proof (induction es arbitrary: f t rs n)
  case Nil
  then show ?case by simp
next
  case (Cons x es)
  obtain r f1 t1 where x: "extract_entry env dest x f t = (r, f1, t1)"
    by (cases "extract_entry env dest x f t")
  obtain rs' where rest: "attempt_all env dest es f1 t1 = (rs', f', t')" and rs: "rs = r # rs'"
    using Cons.prems(1) x by (auto split: prod.splits)
  have done': "all_done rs'" and r: "r = Ok True \<or> r = Ok False"
    using Cons.prems(2) by (simp_all add: rs all_done_Cons)
  note b = successes_bounds(1) [of rs']
  from r show ?case
  proof
    assume t: "r = Ok True"
    have s: "successes rs = 1 + successes rs'" by (simp add: rs t)
    have i: "int32 (n + 1) = n + 1" using Cons.prems(4,5) b s by (intro int32_id) simp_all
    have ns: "\<not> (0 < cap \<and> n + 1 = cap)" using Cons.prems(3) b s by auto
    have p3: "cap \<le> 0 \<or> n + 1 + successes rs' < cap" using Cons.prems(3) s by auto
    have p4: "- (2 ^ 31) \<le> n + 1" using Cons.prems(4) by simp
    have p5: "n + 1 + successes rs' < 2 ^ 31" using Cons.prems(5) s by simp
    have ih: "extract_entries env dest cap es f1 t1 (n + 1) = (Ok (n + 1 + successes rs'), f', t')"
      by (rule Cons.IH [OF rest done' p3 p4 p5])
    have ns': "(0 < cap \<and> n + 1 = cap) = False" using ns by simp
    have "extract_entries env dest cap (x # es) f t n =
        extract_entries env dest cap es f1 t1 (n + 1)"
      by (simp add: x t i ns')
    then show ?thesis unfolding ih s by (simp add: add.assoc)
  next
    assume fl: "r = Ok False"
    have s: "successes rs = successes rs'" by (simp add: rs fl)
    have p3: "cap \<le> 0 \<or> n + successes rs' < cap" using Cons.prems(3) s by auto
    have p5: "n + successes rs' < 2 ^ 31" using Cons.prems(5) s by simp
    have "extract_entries env dest cap es f1 t1 n = (Ok (n + successes rs'), f', t')"
      by (rule Cons.IH [OF rest done' p3 Cons.prems(4) p5])
    with x fl s show ?thesis by simp
  qed
qed

text \<open>The loop stops behind the entry whose success makes the count equal to the cap.\<close>

lemma extract_entries_stop:
  assumes "attempt_all env dest es1 f t = (rs, f', t')" "all_done rs"
    and "rs \<noteq> []" "last rs = Ok True"
    and "0 < cap" "n + successes rs = cap" "cap < 2 ^ 31" "- (2 ^ 31) \<le> n"
  shows "extract_entries env dest cap (es1 @ es2) f t n = (Ok cap, f', t')"
  using assms
proof (induction es1 arbitrary: f t rs n)
  case Nil
  then show ?case by simp
next
  case (Cons x es)
  obtain r f1 t1 where x: "extract_entry env dest x f t = (r, f1, t1)"
    by (cases "extract_entry env dest x f t")
  obtain rs' where rest: "attempt_all env dest es f1 t1 = (rs', f', t')" and rs: "rs = r # rs'"
    using Cons.prems(1) x by (auto split: prod.splits)
  have done': "all_done rs'" and r: "r = Ok True \<or> r = Ok False"
    using Cons.prems(2) by (simp_all add: rs all_done_Cons)
  note b = successes_bounds(1) [of rs']
  from r show ?case
  proof
    assume t: "r = Ok True"
    have s: "successes rs = 1 + successes rs'" by (simp add: rs t)
    have i: "int32 (n + 1) = n + 1" using Cons.prems(6,7,8) b s by (intro int32_id) simp_all
    show ?thesis
    proof (cases "n + 1 = cap")
      case True
      then have z: "successes rs' = 0" using Cons.prems(6) s by simp
      have "rs' = []"
      proof (rule ccontr)
        assume ne: "rs' \<noteq> []"
        then have "last rs' = Ok True" using Cons.prems(4) by (simp add: rs)
        then have "Ok True \<in> set rs'" using ne last_in_set by metis
        then have "filter (\<lambda>r. r = Ok True) rs' \<noteq> []" by (auto simp: filter_empty_conv)
        with z show False by (simp add: successes_def)
      qed
      with rest attempt_all_length [OF rest] have "es = []" "f' = f1" "t' = t1" by auto
      moreover have "int32 cap = cap" using Cons.prems(5,7) by (intro int32_id) simp_all
      ultimately show ?thesis using True Cons.prems(5) by (simp add: x t)
    next
      case False
      have ne: "rs' \<noteq> []"
      proof
        assume "rs' = []"
        with s Cons.prems(6) False show False by simp
      qed
      then have l: "last rs' = Ok True" using Cons.prems(4) by (simp add: rs)
      have p6: "n + 1 + successes rs' = cap" using Cons.prems(6) s by simp
      have p8: "- (2 ^ 31) \<le> n + 1" using Cons.prems(8) by simp
      have ih: "extract_entries env dest cap (es @ es2) f1 t1 (n + 1) = (Ok cap, f', t')"
        by (rule Cons.IH [OF rest done' ne l Cons.prems(5) p6 Cons.prems(7) p8])
      have ns': "(0 < cap \<and> n + 1 = cap) = False" using False by simp
      have "extract_entries env dest cap ((x # es) @ es2) f t n =
          extract_entries env dest cap (es @ es2) f1 t1 (n + 1)"
        by (simp add: x t i ns')
      then show ?thesis unfolding ih .
    qed
  next
    assume fl: "r = Ok False"
    have s: "successes rs = successes rs'" by (simp add: rs fl)
    have ne: "rs' \<noteq> []"
    proof
      assume "rs' = []"
      with Cons.prems(4) rs fl show False by simp
    qed
    then have l: "last rs' = Ok True" using Cons.prems(4) by (simp add: rs)
    have p6: "n + successes rs' = cap" using Cons.prems(6) s by simp
    have "extract_entries env dest cap (es @ es2) f1 t1 n = (Ok cap, f', t')"
      by (rule Cons.IH [OF rest done' ne l Cons.prems(5) p6 Cons.prems(7,8)])
    with x fl show ?thesis by simp
  qed
qed


text \<open>The call, once the archive is open: the loop, then \<^verbatim>\<open>mtf_file_close\<close>.\<close>

lemma mtf_file_extract_batch_open:
  assumes "srcMtfFile \<noteq> []" "destPath \<noteq> []"
    and "mtf_file_open env srcMtfFile = (Ok (), mtf, r)"
  shows "\<exists>f es. osFileHandle mtf = Some f \<and> fileEntries mtf = Some es \<and>
           length es = unat (fileEntryCount mtf) \<and> r = [] \<and>
           mtf_file_extract_batch env srcMtfFile destPath cap t =
             (case extract_entries env destPath cap es f t 0 of
                (Ok n, f', t') \<Rightarrow> (Ok n, t', Closed_stream # free_names es @ [Freed_entries])
              | (Failed e, f', t') \<Rightarrow>
                  (Failed e, t', Closed_stream # free_names es @ [Freed_entries])
              | (Aborted, f', t') \<Rightarrow> (Aborted, t', [])
              | (Overrun, f', t') \<Rightarrow> (Overrun, t', []))"
proof -
  from mtf_file_open_OkD [OF assms(3)] obtain f0 n f es0 where
    re: "read_entries env 0 (unat n) (skip 4 f0) (replicate (unat n) zero_entry) = (Ok (), f, es0)"
    and m: "mtf = \<lparr>osFileHandle = Some f, fileEntries = Some (qsort mtf_sort_by_filename es0),
                   fileEntryCount = n\<rparr>" and r: "r = []"
    by blast
  let ?es = "qsort mtf_sort_by_filename es0"
  have len: "length ?es = unat n"
    using read_entries_length [OF re] by (simp add: qsort_sort_key)
  have cl: "\<And>f'. snd (close_struct (mtf\<lparr>osFileHandle := Some f'\<rparr>)) =
      Closed_stream # free_names ?es @ [Freed_entries]"
    by (simp add: close_struct_def m len)
  have "mtf_file_extract_batch env srcMtfFile destPath cap t =
      (case extract_entries env destPath cap ?es f t 0 of
         (Ok n, f', t') \<Rightarrow> (Ok n, t', Closed_stream # free_names ?es @ [Freed_entries])
       | (Failed e, f', t') \<Rightarrow> (Failed e, t', Closed_stream # free_names ?es @ [Freed_entries])
       | (Aborted, f', t') \<Rightarrow> (Aborted, t', [])
       | (Overrun, f', t') \<Rightarrow> (Overrun, t', []))"
    using assms r cl unfolding mtf_file_extract_batch_def
    by (simp add: m len split: prod.splits outcome.splits)
  with m len r show ?thesis by simp
qed

















lemma demo_attempt_all:
  "attempt_all demo_env demo_path demo_sorted (demo_at 69) no_files =
     ([Ok True, Ok True, Ok False, Ok True, Ok True], demo_at 109,
      out_fs [(0x61, [0x10, 0x11]), (0x62, [1, 2, 3, 4, 5, 6, 7, 8]), (0x63, []),
              (0x64, [0x20]), (0x65, [0x21])])"
  by (simp add: demo_sorted_def demo_entry_first demo_entry_next)


lemma successes_replicate: "successes (replicate m (Ok True)) = int m"
  by (simp add: successes_def)

lemma all_done_replicate: "all_done (replicate m (Ok True))"
  by (simp add: all_done_def list_all_iff)

lemma extract_entries_cap_irrelevant:
  "cap \<le> 0 \<Longrightarrow> cap' \<le> 0 \<Longrightarrow>
   extract_entries env dest cap es f t n = extract_entries env dest cap' es f t n"
proof (induction es arbitrary: f t n)
  case Nil
  then show ?case by simp
next
  case (Cons x es)
  have c: "(0 < cap \<and> int32 (n + 1) = cap) = False" "(0 < cap' \<and> int32 (n + 1) = cap') = False"
    using Cons.prems by simp_all
  show ?case
    by (simp add: c Cons.IH [OF Cons.prems] split: prod.splits outcome.splits)
qed

lemma mtf_file_extract_batch_cap_irrelevant:
  assumes "cap \<le> 0" "cap' \<le> 0"
  shows "mtf_file_extract_batch env src dest cap t = mtf_file_extract_batch env src dest cap' t"
  unfolding mtf_file_extract_batch_def extract_entries_cap_irrelevant [OF assms] by (rule refl)

text \<open>
  Claim C9. With a positive cap the loop stops behind the entry whose success makes the
  count equal to the cap: the call returns true with the cap as count, and the stream and
  the output files are as that entry left them, so that no entry behind it was attempted.
  In particular, when the first \<open>m\<close> entries of the sorted table are all extracted, a cap
  of \<open>m\<close> gives the count \<open>m\<close>. With a cap that is not positive, as \<open>MTF_EXTRACT_ALL\<close>, every
  entry of the table is attempted, and the cap has no effect on the result.
\<close>

theorem cap_stops_after_mth_success:
  "(srcMtfFile \<noteq> [] \<and> destPath \<noteq> [] \<and> mtf_file_open env srcMtfFile = (Ok (), mtf, r) \<and>
      osFileHandle mtf = Some f \<and> fileEntries mtf = Some (es1 @ es2) \<and>
      0 < cap \<and> cap < 2 ^ 31 \<and>
      attempt_all env destPath es1 f t = (rs, f', t') \<and> all_done rs \<and>
      rs \<noteq> [] \<and> last rs = Ok True \<and> successes rs = cap \<longrightarrow>
      extract_entries env destPath cap (es1 @ es2) f t 0 = (Ok cap, f', t') \<and>
      mtf_file_extract_batch env srcMtfFile destPath cap t =
        (Ok cap, t', Closed_stream # free_names (es1 @ es2) @ [Freed_entries]))
   \<and> (srcMtfFile \<noteq> [] \<and> destPath \<noteq> [] \<and> mtf_file_open env srcMtfFile = (Ok (), mtf, r) \<and>
        osFileHandle mtf = Some f \<and> fileEntries mtf = Some es \<and>
        0 < m \<and> m \<le> length es \<and> int m < 2 ^ 31 \<and>
        attempt_all env destPath (take m es) f t = (replicate m (Ok True), f', t') \<longrightarrow>
        mtf_file_extract_batch env srcMtfFile destPath (int m) t =
          (Ok (int m), t', Closed_stream # free_names es @ [Freed_entries]))
   \<and> (srcMtfFile \<noteq> [] \<and> destPath \<noteq> [] \<and> mtf_file_open env srcMtfFile = (Ok (), mtf, r) \<and>
        osFileHandle mtf = Some f \<and> fileEntries mtf = Some es \<and>
        cap \<le> 0 \<and> attempt_all env destPath es f t = (rs, f', t') \<and> all_done rs \<and>
        length es < 2 ^ 31 \<longrightarrow>
        length rs = length es \<and>
        extract_entries env destPath cap es f t 0 = (Ok (successes rs), f', t') \<and>
        mtf_file_extract_batch env srcMtfFile destPath cap t =
          (Ok (successes rs), t', Closed_stream # free_names es @ [Freed_entries]))
   \<and> (cap \<le> 0 \<longrightarrow>
        extract_entries env destPath cap es f t n =
          extract_entries env destPath MTF_EXTRACT_ALL es f t n \<and>
        mtf_file_extract_batch env srcMtfFile destPath cap t =
          mtf_file_extract_batch env srcMtfFile destPath MTF_EXTRACT_ALL t)
   \<and> MTF_EXTRACT_ALL = - 1"
proof (intro conjI impI; (elim conjE)?)
  assume a: "srcMtfFile \<noteq> []" "destPath \<noteq> []" "mtf_file_open env srcMtfFile = (Ok (), mtf, r)"
    "osFileHandle mtf = Some f" "fileEntries mtf = Some (es1 @ es2)"
    "0 < cap" "cap < 2 ^ 31"
    "attempt_all env destPath es1 f t = (rs, f', t')" "all_done rs"
    "rs \<noteq> []" "last rs = Ok True" "successes rs = cap"
  show l: "extract_entries env destPath cap (es1 @ es2) f t 0 = (Ok cap, f', t')"
    using a(12) by (intro extract_entries_stop [OF a(8,9,10,11,6) _ a(7)]) simp_all
  with mtf_file_extract_batch_open [OF a(1,2,3), of cap t] a(4,5)
  show "mtf_file_extract_batch env srcMtfFile destPath cap t =
      (Ok cap, t', Closed_stream # free_names (es1 @ es2) @ [Freed_entries])"
    by auto
next
  assume a: "srcMtfFile \<noteq> []" "destPath \<noteq> []" "mtf_file_open env srcMtfFile = (Ok (), mtf, r)"
    "osFileHandle mtf = Some f" "fileEntries mtf = Some es"
    "0 < m" "m \<le> length es" "int m < 2 ^ 31"
    "attempt_all env destPath (take m es) f t = (replicate m (Ok True), f', t')"
  have ne: "replicate m (Ok True :: bool outcome) \<noteq> []" using a(6) by simp
  have la: "last (replicate m (Ok True :: bool outcome)) = Ok True" using a(6) by simp
  have "extract_entries env destPath (int m) (take m es @ drop m es) f t 0 = (Ok (int m), f', t')"
    using a(6,8)
    by (intro extract_entries_stop [OF a(9) all_done_replicate ne la])
      (simp_all add: successes_replicate)
  then have "extract_entries env destPath (int m) es f t 0 = (Ok (int m), f', t')" by simp
  with mtf_file_extract_batch_open [OF a(1,2,3), of "int m" t] a(4,5)
  show "mtf_file_extract_batch env srcMtfFile destPath (int m) t =
      (Ok (int m), t', Closed_stream # free_names es @ [Freed_entries])"
    by auto
next
  assume a: "srcMtfFile \<noteq> []" "destPath \<noteq> []" "mtf_file_open env srcMtfFile = (Ok (), mtf, r)"
    "osFileHandle mtf = Some f" "fileEntries mtf = Some es"
    "cap \<le> 0" "attempt_all env destPath es f t = (rs, f', t')" "all_done rs"
    "length es < 2 ^ 31"
  show len: "length rs = length es" by (rule attempt_all_length [OF a(7)])
  have small: "0 + successes rs < 2 ^ 31"
    using successes_bounds(2) [of rs] a(9) len by simp
  have "extract_entries env destPath cap es f t 0 = (Ok (0 + successes rs), f', t')"
    using a(6) small by (intro extract_entries_no_stop [OF a(7,8)]) simp_all
  then show l: "extract_entries env destPath cap es f t 0 = (Ok (successes rs), f', t')" by simp
  from l mtf_file_extract_batch_open [OF a(1,2,3), of cap t] a(4,5)
  show "mtf_file_extract_batch env srcMtfFile destPath cap t =
      (Ok (successes rs), t', Closed_stream # free_names es @ [Freed_entries])"
    by auto
next
  assume c: "cap \<le> 0"
  have m: "MTF_EXTRACT_ALL \<le> 0" by (simp add: MTF_EXTRACT_ALL_def)
  show "extract_entries env destPath cap es f t n =
      extract_entries env destPath MTF_EXTRACT_ALL es f t n"
    by (rule extract_entries_cap_irrelevant [OF c m])
  show "mtf_file_extract_batch env srcMtfFile destPath cap t =
      mtf_file_extract_batch env srcMtfFile destPath MTF_EXTRACT_ALL t"
    by (rule mtf_file_extract_batch_cap_irrelevant [OF c m])
next
  show "MTF_EXTRACT_ALL = - 1" by (simp add: MTF_EXTRACT_ALL_def)
qed


lemma demo_attempt_two:
  "attempt_all demo_env demo_path [entry_of 0x61 69 2, entry_of 0x62 71 8] (demo_at 69) no_files =
     ([Ok True, Ok True], demo_at 92, out_fs [(0x61, [0x10, 0x11]), (0x62, [1, 2, 3, 4, 5, 6, 7, 8])])"
  by (simp add: demo_entry_first demo_entry_next)

theorem cap_stops_after_mth_success_witness:
  "extract_entries demo_env demo_path 2 demo_sorted (demo_at 69) no_files 0 =
     (Ok 2, demo_at 92, out_fs [(0x61, [0x10, 0x11]), (0x62, [1, 2, 3, 4, 5, 6, 7, 8])])
   \<and> mtf_file_extract_batch demo_env demo_path demo_path 2 no_files =
       (Ok 2, out_fs [(0x61, [0x10, 0x11]), (0x62, [1, 2, 3, 4, 5, 6, 7, 8])],
        [Closed_stream, Freed_name [0x61], Freed_name [0x62], Freed_name [0x63],
         Freed_name [0x64], Freed_name [0x65], Freed_entries])
   \<and> out_fs [(0x61, [0x10, 0x11]), (0x62, [1, 2, 3, 4, 5, 6, 7, 8])] (out_file 0x63) = None
   \<and> mtf_file_extract_batch demo_env demo_path demo_path 0 no_files =
       (Ok 4,
        out_fs [(0x61, [0x10, 0x11]), (0x62, [1, 2, 3, 4, 5, 6, 7, 8]), (0x63, []),
                (0x64, [0x20]), (0x65, [0x21])],
        [Closed_stream, Freed_name [0x61], Freed_name [0x62], Freed_name [0x63],
         Freed_name [0x64], Freed_name [0x65], Freed_entries])
   \<and> mtf_file_extract_batch demo_env demo_path demo_path 0 no_files =
       mtf_file_extract_batch demo_env demo_path demo_path MTF_EXTRACT_ALL no_files
   \<and> MTF_EXTRACT_ALL = - 1"
proof -
  let ?es1 = "[entry_of 0x61 69 2, entry_of 0x62 71 8]"
  let ?es2 = "[entry_of 0x63 92 1, entry_of 0x64 107 1, entry_of 0x65 108 1]"
  let ?tab = "out_fs [(0x61, [0x10, 0x11]), (0x62, [1, 2, 3, 4, 5, 6, 7, 8])]"
  let ?all = "out_fs [(0x61, [0x10, 0x11]), (0x62, [1, 2, 3, 4, 5, 6, 7, 8]), (0x63, []),
                (0x64, [0x20]), (0x65, [0x21])]"
  let ?rs = "[Ok True, Ok True, Ok False, Ok True, Ok True]"
  let ?m = "\<lparr>osFileHandle = Some (skip 69 (stream demo_archive)), fileEntries = Some demo_sorted,
             fileEntryCount = 5 :: uint32_t\<rparr>"
  have split: "demo_sorted = ?es1 @ ?es2" by (simp add: demo_sorted_def)
  have h1: "demo_path \<noteq> [] \<and> demo_path \<noteq> [] \<and> mtf_file_open demo_env demo_path = (Ok (), ?m, []) \<and>
      osFileHandle ?m = Some (demo_at 69) \<and> fileEntries ?m = Some (?es1 @ ?es2) \<and>
      (0 :: int) < 2 \<and> (2 :: int) < 2 ^ 31 \<and>
      attempt_all demo_env demo_path ?es1 (demo_at 69) no_files = ([Ok True, Ok True], demo_at 92, ?tab) \<and>
      all_done [Ok True, Ok True] \<and> [Ok True, Ok True] \<noteq> ([] :: bool outcome list) \<and>
      last [Ok True, Ok True] = (Ok True :: bool outcome) \<and> successes [Ok True, Ok True] = 2"
    using demo_open demo_attempt_two
    by (simp add: demo_path_def demo_at_skip all_done_def demo_sorted_def)
  note r1 = cap_stops_after_mth_success [where env = demo_env and srcMtfFile = demo_path
      and destPath = demo_path and mtf = "?m" and r = "[]" and f = "demo_at 69"
      and ?es1.0 = "?es1" and ?es2.0 = "?es2" and cap = 2 and t = no_files
      and rs = "[Ok True, Ok True]" and f' = "demo_at 92" and t' = "?tab", THEN conjunct1, THEN mp, OF h1]
  have c1: "extract_entries demo_env demo_path 2 (?es1 @ ?es2) (demo_at 69) no_files 0 =
      (Ok 2, demo_at 92, ?tab)"
    using r1 by (rule conjunct1)
  have c1': "mtf_file_extract_batch demo_env demo_path demo_path 2 no_files =
      (Ok 2, ?tab, Closed_stream # free_names (?es1 @ ?es2) @ [Freed_entries])"
    using r1 by (rule conjunct2)
  have h2: "demo_path \<noteq> [] \<and> demo_path \<noteq> [] \<and> mtf_file_open demo_env demo_path = (Ok (), ?m, []) \<and>
      osFileHandle ?m = Some (demo_at 69) \<and> fileEntries ?m = Some demo_sorted \<and>
      (0 :: nat) < 2 \<and> 2 \<le> length demo_sorted \<and> int 2 < 2 ^ 31 \<and>
      attempt_all demo_env demo_path (take 2 demo_sorted) (demo_at 69) no_files =
        (replicate 2 (Ok True), demo_at 92, ?tab)"
    using demo_open demo_attempt_two
    by (simp add: demo_path_def demo_at_skip demo_sorted_def numeral_2_eq_2)
  have c2: "mtf_file_extract_batch demo_env demo_path demo_path (int 2) no_files =
      (Ok (int 2), ?tab, Closed_stream # free_names demo_sorted @ [Freed_entries])"
    using cap_stops_after_mth_success [where env = demo_env and srcMtfFile = demo_path
      and destPath = demo_path and mtf = "?m" and r = "[]" and f = "demo_at 69"
      and es = demo_sorted and m = 2 and t = no_files and f' = "demo_at 92" and t' = "?tab",
      THEN conjunct2, THEN conjunct1] h2
    by (rule mp)
  have h3: "demo_path \<noteq> [] \<and> demo_path \<noteq> [] \<and> mtf_file_open demo_env demo_path = (Ok (), ?m, []) \<and>
      osFileHandle ?m = Some (demo_at 69) \<and> fileEntries ?m = Some demo_sorted \<and>
      (0 :: int) \<le> 0 \<and>
      attempt_all demo_env demo_path demo_sorted (demo_at 69) no_files = (?rs, demo_at 109, ?all) \<and>
      all_done ?rs \<and> length demo_sorted < 2 ^ 31"
    using demo_open demo_attempt_all
    by (simp add: demo_path_def demo_at_skip all_done_def demo_sorted_def)
  note r3 = cap_stops_after_mth_success [where env = demo_env and srcMtfFile = demo_path
      and destPath = demo_path and mtf = "?m" and r = "[]" and f = "demo_at 69"
      and es = demo_sorted and cap = 0 and t = no_files and rs = "?rs" and f' = "demo_at 109"
      and t' = "?all", THEN conjunct2, THEN conjunct2, THEN conjunct1, THEN mp, OF h3]
  have c3: "mtf_file_extract_batch demo_env demo_path demo_path 0 no_files =
      (Ok (successes ?rs), ?all, Closed_stream # free_names demo_sorted @ [Freed_entries])"
    using r3 [THEN conjunct2, THEN conjunct2] .
  have h4: "(0 :: int) \<le> 0" by simp
  have c3': "mtf_file_extract_batch demo_env demo_path demo_path 0 no_files =
      mtf_file_extract_batch demo_env demo_path demo_path MTF_EXTRACT_ALL no_files"
    using cap_stops_after_mth_success [where env = demo_env and srcMtfFile = demo_path
      and destPath = demo_path and cap = 0 and t = no_files,
      THEN conjunct2, THEN conjunct2, THEN conjunct2, THEN conjunct1, THEN mp, OF h4]
    by (rule conjunct2)
  have c4: "MTF_EXTRACT_ALL = - 1"
    using cap_stops_after_mth_success
      [THEN conjunct2, THEN conjunct2, THEN conjunct2, THEN conjunct2] .
  have n: "?tab (out_file 0x63) = None"
    by (simp add: out_fs_def out_file_def demo_path_def no_files_def)
  show ?thesis
    using c1 c1' c2 c3 c3' c4 n by (simp add: demo_sorted_def entry_of_def)
qed

end
